theory Spec2Isabelle
  imports Complex_Main "HOL-Library.Log_Nat"
begin

section \<open>JavaScript numbers\<close>

text \<open>
  A TypeScript \<open>number\<close> is an IEEE 754 double. The finite doubles are the rationals
  \<open>n * 2^k\<close> with \<open>\<bar>n\<bar> < 2^53\<close>, and an arithmetic operation returns its exact result
  rounded to the nearest of them, a tie going to the one whose \<open>n\<close> is even. \<open>round53\<close> is
  that rounding: \<open>exponent x\<close> is the \<open>k\<close> with \<open>2^k \<le> x < 2^(k+1)\<close>, the doubles around
  \<open>x\<close> are the multiples of \<open>ulp = 2^(k-52)\<close>, and \<open>round_half_even\<close> picks the nearest
  multiple. The range of the exponent of a double is not modelled: the quotients and sums of
  this program stay far below \<open>2^1024\<close>, and a quotient of two integers that is too small
  for the full precision of 53 bits still has the floor that is computed here.
\<close>

definition pow2 :: "int \<Rightarrow> rat" where
  "pow2 k = (if 0 \<le> k then 2 ^ nat k else 1 / 2 ^ nat (- k))"

definition exponent :: "rat \<Rightarrow> int" where
  "exponent x = (if 1 \<le> x then bitlen \<lfloor>x\<rfloor> - 1 else - bitlen (\<lceil>1 / x\<rceil> - 1))"

definition round_half_even :: "rat \<Rightarrow> int" where
  "round_half_even x =
     (let f = \<lfloor>x\<rfloor>; d = x - of_int f
      in if d < 1 / 2 then f else if 1 / 2 < d then f + 1 else if even f then f else f + 1)"

definition round53 :: "rat \<Rightarrow> rat" where
  "round53 x =
     (if x = 0 then 0
      else let ulp = pow2 (exponent \<bar>x\<bar> - 52)
           in sgn x * of_int (round_half_even (\<bar>x\<bar> / ulp)) * ulp)"

text \<open>
  The numbers of this program hold integers: stock levels, pack sizes, quantities. Such a
  number is given here by the integer it holds, an \<^typ>\<open>int\<close>. The integers that are doubles
  (\<open>is_number\<close>) are those that the rounding leaves as they are: every integer of magnitude up
  to \<open>2^53\<close>, and beyond that only multiples of powers of two.
  \<open>number_div\<close> is the operator \<open>/\<close> on two of them, with a divisor that is not 0, and
  \<open>number_add\<close> is the operator \<open>+\<close> and \<open>number_sub\<close> the operator \<open>-\<close>: the exact sum
  or difference of two integers rounds to an integer again (lemma \<open>round53_of_int_integral\<close>),
  which the floor reads off. \<open>Math.floor\<close> of a double is its floor.
\<close>

definition is_number :: "int \<Rightarrow> bool" where
  "is_number n \<longleftrightarrow> round53 (of_int n) = of_int n"

definition number_div :: "int \<Rightarrow> int \<Rightarrow> rat" where
  "number_div a b = round53 (of_int a / of_int b)"


definition number_sub :: "int \<Rightarrow> int \<Rightarrow> int" where
  "number_sub a b = \<lfloor>round53 (of_int (a - b))\<rfloor>"

definition Math_floor :: "rat \<Rightarrow> int" where
  "Math_floor x = \<lfloor>x\<rfloor>"

section \<open>Availability calculator (app/services/inventory-sync.server.ts)\<close>

text \<open>
  The calculators divide two numbers and take \<open>Math.floor\<close> of the quotient; the
  arguments are numbers that hold integers. A \<open>throw new Error(msg)\<close> is the value
  \<open>Inl (Error msg)\<close>.
\<close>

datatype error = Error string

definition calculateBundleAvailability :: "int \<Rightarrow> int \<Rightarrow> error + int" where
  "calculateBundleAvailability physicalStock multiplier =
     (if multiplier \<le> 0 then Inl (Error ''Multiplier must be a positive number'')
      else Inr (Math_floor (number_div physicalStock multiplier)))"

record Component =
  stock :: int
  quantity :: int

text \<open>The callback of \<open>components.map\<close> in \<open>calculateMixedBundleAvailability\<close>.\<close>

definition componentAvailability :: "Component \<Rightarrow> error + int" where
  "componentAvailability component =
     (if quantity component \<le> 0 then Inl (Error ''Component quantity must be a positive number'')
      else Inr (Math_floor (number_div (stock component) (quantity component))))"

text \<open>
  \<open>Array.prototype.map\<close> with a callback that may throw: the elements are visited from
  left to right and the first exception ends the traversal.
\<close>

fun map_throw :: "('a \<Rightarrow> error + 'b) \<Rightarrow> 'a list \<Rightarrow> error + 'b list" where
  "map_throw f [] = Inr []"
| "map_throw f (x # xs) =
     (case f x of
        Inl e \<Rightarrow> Inl e
      | Inr y \<Rightarrow> (case map_throw f xs of Inl e \<Rightarrow> Inl e | Inr ys \<Rightarrow> Inr (y # ys)))"

text \<open>
  \<open>Math.min(x, ...xs)\<close> on at least one argument. (With no argument at all JavaScript
  answers \<open>Infinity\<close>; \<open>calculateMixedBundleAvailability\<close> returns before that for an
  empty array, and \<open>map\<close> keeps the length, so the spread always carries a first
  element: the inner \<open>[]\<close> case below is never taken, see \<open>map_throw_length\<close>.)
\<close>

fun Math_min :: "int \<Rightarrow> int list \<Rightarrow> int" where
  "Math_min x [] = x"
| "Math_min x (y # ys) = Math_min (min x y) ys"

definition calculateMixedBundleAvailability :: "Component list \<Rightarrow> error + int" where
  "calculateMixedBundleAvailability components =
     (case components of
        [] \<Rightarrow> Inr 0
      | _ # _ \<Rightarrow>
          (case map_throw componentAvailability components of
             Inl e \<Rightarrow> Inl e
           | Inr availabilities \<Rightarrow>
               (case availabilities of [] \<Rightarrow> Inr 0 | a # as \<Rightarrow> Inr (Math_min a as))))"

section \<open>JavaScript maps, arrays and strings\<close>

text \<open>
  A JavaScript \<open>Map\<close> iterates in insertion order, and \<open>set\<close> on a key that is already
  there replaces the value where it stands. The model is an association list with distinct
  keys: \<open>Map_get\<close> is \<open>get\<close> (\<open>None\<close> for \<open>undefined\<close>), \<open>Map_set\<close> is \<open>set\<close>,
  \<open>Map_values\<close> is \<open>Array.from(m.values())\<close>.
\<close>

fun Map_get :: "('k \<times> 'v) list \<Rightarrow> 'k \<Rightarrow> 'v option" where
  "Map_get [] k = None"
| "Map_get ((k', v') # m) k = (if k' = k then Some v' else Map_get m k)"

fun Map_set :: "('k \<times> 'v) list \<Rightarrow> 'k \<Rightarrow> 'v \<Rightarrow> ('k \<times> 'v) list" where
  "Map_set [] k v = [(k, v)]"
| "Map_set ((k', v') # m) k v = (if k' = k then (k', v) # m else (k', v') # Map_set m k v)"

definition Map_values :: "('k \<times> 'v) list \<Rightarrow> 'v list" where
  "Map_values m = map snd m"

text \<open>\<open>Array.prototype.join\<close> on an array of strings.\<close>

fun join :: "string \<Rightarrow> string list \<Rightarrow> string" where
  "join sep [] = []"
| "join sep [x] = x"
| "join sep (x # y # ys) = x @ sep @ join sep (y # ys)"

text \<open>
  \<open>String(n)\<close>, and \<open>${n}\<close> in a template, for a number that holds an integer
  (\<open>Number::toString\<close> of ECMA-262 with radix 10). The digits are those of the decimal
  number with the fewest significant digits that the number format rounds to \<open>n\<close>; among
  several of that length the one closest to \<open>n\<close>, for two equally close the one whose digits
  form an even integer. A number of at most 21 digits before the decimal point is written
  with all of them, a longer one in exponent notation. A safe integer (one of magnitude below
  \<open>2^53\<close>, as quantities, ids and clock readings are) is thus written with its decimal
  digits (lemma \<open>String_number_safe\<close>), \<open>2^64\<close> as \<open>18446744073709552000\<close> and \<open>2^70\<close> as
  \<open>1.1805916207174113e+21\<close>.

  \<open>shortest x j\<close> looks for that decimal number among the multiples of \<open>10^j\<close>, then of
  \<open>10^(j-1)\<close>, and so on: the candidates with a given number of significant digits lie
  in an interval around \<open>x\<close>, so the closest one is the multiple just below or just above.
\<close>

definition digit_char :: "int \<Rightarrow> char" where
  "digit_char d = char_of (48 + d)"

function decimal_digits :: "int \<Rightarrow> string" where
  "decimal_digits n =
     (if n < 10 then [digit_char n] else decimal_digits (n div 10) @ [digit_char (n mod 10)])"
  by pat_completeness auto
termination
  by (relation "measure nat") auto

declare decimal_digits.simps [simp del]

definition same_number :: "int \<Rightarrow> int \<Rightarrow> bool" where
  "same_number v x = (round53 (of_int v) = round53 (of_int x))"

fun shortest :: "int \<Rightarrow> nat \<Rightarrow> int" where
  "shortest x 0 = x"
| "shortest x (Suc j) =
     (let p = 10 ^ Suc j;
          lo = (x div p) * p;
          hi = lo + p
      in if same_number lo x \<and> same_number hi x then
           (if x - lo < hi - x then lo
            else if hi - x < x - lo then hi
            else if even (x div p) then lo else hi)
         else if same_number lo x then lo
         else if same_number hi x then hi
         else shortest x j)"

fun strip_zeros :: "string \<Rightarrow> string" where
  "strip_zeros ds = rev (dropWhile (\<lambda>c. c = CHR ''0'') (rev ds))"

definition exponent_notation :: "string \<Rightarrow> string" where
  "exponent_notation ds =
     (case strip_zeros ds of
        [] \<Rightarrow> []
      | c # cs \<Rightarrow>
          (if cs = [] then [c] else c # CHR ''.'' # cs) @ ''e+'' @ decimal_digits (int (length ds) - 1))"

definition String_magnitude :: "int \<Rightarrow> string" where
  "String_magnitude x =
     (let ds = decimal_digits (shortest x (length (decimal_digits x) - 1))
      in if length ds \<le> 21 then ds else exponent_notation ds)"

definition String_number :: "int \<Rightarrow> string" where
  "String_number n = (if n < 0 then CHR ''-'' # String_magnitude (- n) else String_magnitude n)"

section \<open>Pick list (app/services/picklist.server.ts)\<close>

text \<open>
  Field names are global in a theory, so the \<open>quantity\<close> of a line item is
  \<open>item_quantity\<close> here (\<open>quantity\<close> is the field of a calculator component).
\<close>

record OrderLineItem =
  variantGid :: string
  productTitle :: string
  variantTitle :: string
  sku :: "string option"
  item_quantity :: int

text \<open>A \<open>PickListItem\<close> has the fields of an \<open>OrderLineItem\<close> and the bin location.\<close>

record PickListItem = OrderLineItem +
  binLocation :: "string option"







text \<open>\<open>value.replace(/"/g, '""')\<close>: every double quote (character \<open>0x22\<close>) is doubled.\<close>

fun replace_quotes :: "string \<Rightarrow> string" where
  "replace_quotes [] = []"
| "replace_quotes (c # cs) =
     (if c = CHR 0x22 then CHR 0x22 # CHR 0x22 # replace_quotes cs else c # replace_quotes cs)"

definition string_includes :: "string \<Rightarrow> char \<Rightarrow> bool" where
  "string_includes s c = (c \<in> set s)"

definition escapeCSV :: "string \<Rightarrow> string" where
  "escapeCSV v =
     (if string_includes v CHR '','' \<or> string_includes v CHR 0x22 \<or> string_includes v CHR 0x0A
      then CHR 0x22 # replace_quotes v @ [CHR 0x22]
      else v)"

text \<open>\<open>x ?? ""\<close> on a nullable string.\<close>

definition or_empty :: "string option \<Rightarrow> string" where
  "or_empty x = (case x of None \<Rightarrow> [] | Some s \<Rightarrow> s)"

definition csv_headers :: "string list" where
  "csv_headers = [''Product'', ''Variant'', ''SKU'', ''Quantity'', ''Bin Location'']"

definition csv_row :: "PickListItem \<Rightarrow> string list" where
  "csv_row item =
     [escapeCSV (productTitle item),
      escapeCSV (variantTitle item),
      escapeCSV (or_empty (sku item)),
      String_number (item_quantity item),
      escapeCSV (or_empty (binLocation item))]"

definition exportToCSV :: "PickListItem list \<Rightarrow> string" where
  "exportToCSV items =
     join [CHR 0x0A] (join '','' csv_headers # map (\<lambda>row. join '','' row) (map csv_row items))"

text \<open>
  The serialisation in the words of the specification, to compare \<open>exportToCSV\<close> with:
  a field that holds a comma, a double quote or a line feed is put between double quotes
  with every double quote inside written twice; a row is the five fields with commas
  between them, an absent SKU or bin location being the empty field.
\<close>

definition csv_field_spec :: "string \<Rightarrow> string" where
  "csv_field_spec v =
     (if \<exists>c\<in>set v. c = CHR '','' \<or> c = CHR 0x22 \<or> c = CHR 0x0A
      then [CHR 0x22] @ concat (map (\<lambda>c. if c = CHR 0x22 then [c, c] else [c]) v) @ [CHR 0x22]
      else v)"

definition csv_line_spec :: "PickListItem \<Rightarrow> string" where
  "csv_line_spec item =
     csv_field_spec (productTitle item) @ '','' @
     csv_field_spec (variantTitle item) @ '','' @
     (case sku item of None \<Rightarrow> [] | Some s \<Rightarrow> csv_field_spec s) @ '','' @
     String_number (item_quantity item) @ '','' @
     (case binLocation item of None \<Rightarrow> [] | Some b \<Rightarrow> csv_field_spec b)"

section \<open>Sync locks (app/services/inventory-sync.server.ts)\<close>

text \<open>
  A row of the \<open>SyncLock\<close> table. Its primary key \<open>id\<close> is \<open>lock_id\<close> here; dates are
  milliseconds since the epoch (the time value of a \<open>Date\<close> is an integer of magnitude at
  most \<open>8.64 * 10^15\<close>, so that adding the TTL to it is exact). (The column \<open>createdAt\<close>
  is filled by the store and never read.) The table is the list of its rows.
\<close>

record SyncLock =
  lock_id :: string
  bundleId :: string
  expiresAt :: int

definition SYNC_LOCK_TTL_MS :: int where
  "SYNC_LOCK_TTL_MS = 60 * 1000"

text \<open>
  The three store operations the lock manager uses: \<open>deleteMany\<close> of the rows with
  \<open>expiresAt < now\<close>, \<open>create\<close>, which fails when the primary key is taken, and \<open>delete\<close> by
  primary key, which fails when there is no such row.
\<close>

definition syncLock_deleteMany_expired :: "int \<Rightarrow> SyncLock list \<Rightarrow> SyncLock list" where
  "syncLock_deleteMany_expired now locks = filter (\<lambda>l. \<not> expiresAt l < now) locks"

definition syncLock_create :: "SyncLock \<Rightarrow> SyncLock list \<Rightarrow> error + SyncLock list" where
  "syncLock_create lock locks =
     (if \<exists>l\<in>set locks. lock_id l = lock_id lock
      then Inl (Error ''Unique constraint failed on the fields: (id)'')
      else Inr (locks @ [lock]))"

definition syncLock_delete :: "string \<Rightarrow> SyncLock list \<Rightarrow> error + SyncLock list" where
  "syncLock_delete lockId locks =
     (if \<exists>l\<in>set locks. lock_id l = lockId
      then Inr (filter (\<lambda>l. lock_id l \<noteq> lockId) locks)
      else Inl (Error ''Record to delete does not exist''))"

text \<open>
  \<open>acquireSyncLock\<close>, with the reading of the clock (\<open>new Date()\<close>) as the argument \<open>now\<close>.
  The result is the returned boolean and the table afterwards: the clean-up stays done when
  the \<open>create\<close> fails and the \<open>catch\<close> returns \<open>false\<close>.
\<close>

definition acquireSyncLock ::
  "int \<Rightarrow> string \<Rightarrow> string \<Rightarrow> SyncLock list \<Rightarrow> bool \<times> SyncLock list" where
  "acquireSyncLock now lockId bundle locks =
     (let expires = now + SYNC_LOCK_TTL_MS;
          locks1 = syncLock_deleteMany_expired now locks
      in case syncLock_create \<lparr>lock_id = lockId, bundleId = bundle, expiresAt = expires\<rparr> locks1 of
           Inr locks2 \<Rightarrow> (True, locks2)
         | Inl e \<Rightarrow> (False, locks1))"

definition releaseSyncLock :: "string \<Rightarrow> SyncLock list \<Rightarrow> SyncLock list" where
  "releaseSyncLock lockId locks =
     (case syncLock_delete lockId locks of Inr locks' \<Rightarrow> locks' | Inl e \<Rightarrow> locks)"

section \<open>Sync orchestrator (app/services/inventory-sync.server.ts)\<close>

record BundleChild =
  child_id :: string
  childGid :: string
  child_quantity :: int

record Bundle =
  bundle_id :: string
  shopId :: string
  name :: string
  parentGid :: string
  children :: "BundleChild list"

record InventoryUpdateEvent =
  inventoryItemId :: int
  locationId :: int
  available :: int
  shop :: string

record InventoryAdjustment =
  adj_inventoryItemId :: string
  adj_locationId :: string
  delta :: int

record SyncResult =
  processed :: bool
  bundlesAffected :: nat
  adjustmentsMade :: nat
  skipped :: "string option"
  error :: "string option"

text \<open>
  The inventory ledger of the commerce platform: the available quantity of an inventory item
  (first component) at a location (second component), where the item is stocked there.
\<close>

type_synonym ledger = "string \<times> string \<Rightarrow> int option"

text \<open>
  What the service is run against and does not change: the clock (\<open>clock n\<close> is the value
  of the \<open>n\<close>-th reading), the bundle table of the database, the answers of the two GraphQL
  look-ups, and the behaviour of the mutation \<open>inventoryAdjustQuantities\<close>: called with the
  reason and the changes on a ledger, it leaves a ledger behind and either responds
  (\<open>None\<close>) or makes the call throw (\<open>Some e\<close>). Nothing is assumed about that behaviour.
  The database operations themselves are taken to succeed, apart from the violated
  primary key of \<open>create\<close> and the missing row of \<open>delete\<close>, and one call of
  \<open>processInventoryUpdate\<close> runs without another process in between.
\<close>

record env =
  clock :: "nat \<Rightarrow> int"
  bundleTable :: "Bundle list"
  variantOfInventoryItem :: "string \<Rightarrow> string option"
  inventoryItemOfVariant :: "string \<Rightarrow> string option"
  inventoryAdjustQuantities :: "string \<Rightarrow> InventoryAdjustment list \<Rightarrow> ledger \<Rightarrow> error option \<times> ledger"

text \<open>What a run changes: the lock table, the ledger, and how often the clock was read.\<close>

record world =
  syncLocks :: "SyncLock list"
  inventory :: ledger
  ticks :: nat

definition Date_now :: "env \<Rightarrow> world \<Rightarrow> int \<times> world" where
  "Date_now e w = (clock e (ticks w), w\<lparr>ticks := Suc (ticks w)\<rparr>)"

text \<open>\<open>[...new Set(xs)]\<close>: the elements in the order of their first occurrence.\<close>

definition Set_values :: "'a list \<Rightarrow> 'a list" where
  "Set_values xs = foldl (\<lambda>s x. if x \<in> set s then s else s @ [x]) [] xs"

text \<open>
  The batches of the loops \<open>for (let i = 0; i < xs.length; i += batchSize)\<close> with
  \<open>xs.slice(i, i + batchSize)\<close> (for a batch size of 0 the source would not terminate; the
  sizes are the constants 50 and 10).
\<close>

function batches :: "nat \<Rightarrow> 'a list \<Rightarrow> nat \<Rightarrow> 'a list list" where
  "batches batchSize xs i =
     (if 0 < batchSize \<and> i < length xs
      then take batchSize (drop i xs) # batches batchSize xs (i + batchSize)
      else [])"
  by pat_completeness auto
termination
  by (relation "measure (\<lambda>(batchSize, xs, i). length xs - i)") auto

declare batches.simps [simp del]

definition findBundlesForVariant :: "env \<Rightarrow> string \<Rightarrow> string \<Rightarrow> Bundle list" where
  "findBundlesForVariant e shopName variant =
     (let parentBundles =
            filter (\<lambda>b. shopId b = shopName \<and> parentGid b = variant) (bundleTable e);
          childBundles =
            filter (\<lambda>b. shopId b = shopName \<and> (\<exists>c\<in>set (children b). childGid c = variant))
              (bundleTable e);
          bundleMap = foldl (\<lambda>m b. Map_set m (bundle_id b) b) [] (parentBundles @ childBundles)
      in Map_values bundleMap)"

definition getInventoryItemForVariant :: "env \<Rightarrow> string \<Rightarrow> string option" where
  "getInventoryItemForVariant e variant = inventoryItemOfVariant e variant"

definition findVariantForInventoryItem :: "env \<Rightarrow> int \<Rightarrow> string option" where
  "findVariantForInventoryItem e item =
     variantOfInventoryItem e (''gid://shopify/InventoryItem/'' @ String_number item)"

text \<open>
  \<open>getInventoryLevels\<close>: for every node of a batch that has an \<open>available\<close> quantity at the
  location, the quantity is stored under the id of the node (\<open>level_step\<close>).
\<close>

definition level_step ::
  "ledger \<Rightarrow> string \<Rightarrow> (string \<times> int) list \<Rightarrow> string \<Rightarrow> (string \<times> int) list" where
  "level_step led location levels node =
     (case led (node, location) of
        Some q \<Rightarrow> Map_set levels node q
      | None \<Rightarrow> levels)"

definition getInventoryLevels :: "ledger \<Rightarrow> string list \<Rightarrow> string \<Rightarrow> (string \<times> int) list" where
  "getInventoryLevels led inventoryItemIds location =
     foldl (\<lambda>levels batch. foldl (level_step led location) levels batch)
       [] (batches 50 inventoryItemIds 0)"

fun adjust_batches ::
  "env \<Rightarrow> string \<Rightarrow> InventoryAdjustment list list \<Rightarrow> ledger \<Rightarrow> error option \<times> ledger" where
  "adjust_batches e reason [] led = (None, led)"
| "adjust_batches e reason (batch # rest) led =
     (case inventoryAdjustQuantities e reason batch led of
        (Some err, led') \<Rightarrow> (Some err, led')
      | (None, led') \<Rightarrow> adjust_batches e reason rest led')"

definition adjustInventoryLevels ::
  "env \<Rightarrow> InventoryAdjustment list \<Rightarrow> string \<Rightarrow> ledger \<Rightarrow> error option \<times> ledger" where
  "adjustInventoryLevels e adjustments reason led =
     (if length adjustments = 0 then (None, led)
      else let nonZeroAdjustments = filter (\<lambda>a. delta a \<noteq> 0) adjustments
           in if length nonZeroAdjustments = 0 then (None, led)
              else adjust_batches e reason (batches 10 nonZeroAdjustments 0) led)"

text \<open>\<open>m.get(k) ?? 0\<close> on a map of numbers.\<close>

definition get_or_0 :: "(string \<times> int) list \<Rightarrow> string \<Rightarrow> int" where
  "get_or_0 m k = (case Map_get m k of Some x \<Rightarrow> x | None \<Rightarrow> 0)"

text \<open>
  The end of both branches of \<open>calculateBundleAdjustments\<close>, which the source writes out
  twice: the delta of the parent (a difference of two numbers), and the adjustment when the
  delta is not zero and the parent has an inventory item (a non-empty string: the test is
  truthiness).
\<close>

definition parent_adjustments ::
  "(string \<times> string) list \<Rightarrow> (string \<times> int) list \<Rightarrow> Bundle \<Rightarrow> string \<Rightarrow> int
     \<Rightarrow> InventoryAdjustment list" where
  "parent_adjustments inventoryItemMap stockMap bundle locationGid expectedParentAvailability =
     (let currentParentStock = get_or_0 stockMap (parentGid bundle);
          parentDelta = number_sub expectedParentAvailability currentParentStock
      in if parentDelta \<noteq> 0
         then (case Map_get inventoryItemMap (parentGid bundle) of
                 Some parentInventoryItemId \<Rightarrow>
                   (if parentInventoryItemId \<noteq> []
                    then [\<lparr>adj_inventoryItemId = parentInventoryItemId,
                           adj_locationId = locationGid, delta = parentDelta\<rparr>]
                    else [])
               | None \<Rightarrow> [])
         else [])"

text \<open>
  The bodies of the two loops of \<open>calculateBundleAdjustments\<close>: the first keeps the
  inventory item of a variant when the look-up gave one (a non-empty string), the second
  enters the stock of a variant, which for the changed variant is the value of the event.
\<close>

definition item_step :: "env \<Rightarrow> (string \<times> string) list \<Rightarrow> string \<Rightarrow> (string \<times> string) list" where
  "item_step e m variant =
     (case getInventoryItemForVariant e variant of
        Some item \<Rightarrow> if item \<noteq> [] then Map_set m variant item else m
      | None \<Rightarrow> m)"

definition stock_step ::
  "(string \<times> int) list \<Rightarrow> string \<Rightarrow> int \<Rightarrow> (string \<times> int) list \<Rightarrow> string \<times> string
     \<Rightarrow> (string \<times> int) list" where
  "stock_step currentLevels changedVariantGid newAvailable m entry =
     (case entry of
        (variant, item) \<Rightarrow>
          if variant = changedVariantGid then Map_set m variant newAvailable
          else Map_set m variant (get_or_0 currentLevels item))"

definition calculateBundleAdjustments ::
  "env \<Rightarrow> ledger \<Rightarrow> Bundle \<Rightarrow> string \<Rightarrow> string \<Rightarrow> int \<Rightarrow> error + InventoryAdjustment list" where
  "calculateBundleAdjustments e led bundle locationGid changedVariantGid newAvailable =
     (let allVariantGids = parentGid bundle # map childGid (children bundle);
          uniqueVariantGids = Set_values allVariantGids;
          inventoryItemMap = foldl (item_step e) [] uniqueVariantGids;
          inventoryItemIds = Map_values inventoryItemMap;
          currentLevels = getInventoryLevels led inventoryItemIds locationGid;
          stockMap =
            foldl (stock_step currentLevels changedVariantGid newAvailable) [] inventoryItemMap
      in case children bundle of
           [child] \<Rightarrow>
             (case calculateBundleAvailability (get_or_0 stockMap (childGid child))
                     (child_quantity child) of
                Inl err \<Rightarrow> Inl err
              | Inr expectedParentAvailability \<Rightarrow>
                  Inr (parent_adjustments inventoryItemMap stockMap bundle locationGid
                         expectedParentAvailability))
         | _ \<Rightarrow>
             (case calculateMixedBundleAvailability
                     (map (\<lambda>child. \<lparr>stock = get_or_0 stockMap (childGid child),
                                     quantity = child_quantity child\<rparr>) (children bundle)) of
                Inl err \<Rightarrow> Inl err
              | Inr expectedParentAvailability \<Rightarrow>
                  Inr (parent_adjustments inventoryItemMap stockMap bundle locationGid
                         expectedParentAvailability)))"

text \<open>
  One round of the loop over the bundles ends in one of three ways: the \<open>continue\<close> after
  a lock that was not acquired, an exception that leaves the \<open>try\<close> block (and, after the
  \<open>finally\<close>, the whole function), or the end of the block with the number of adjustments.
\<close>

datatype bundle_outcome = Skipped | Threw error | Adjusted nat

definition sync_lock_id :: "Bundle \<Rightarrow> int \<Rightarrow> int \<Rightarrow> string" where
  "sync_lock_id bundle location now =
     ''sync-'' @ bundle_id bundle @ ''-'' @ String_number location @ ''-'' @ String_number now"

text \<open>The \<open>try\<close> block: its result and the world it leaves.\<close>

definition sync_bundle ::
  "env \<Rightarrow> Bundle \<Rightarrow> string \<Rightarrow> string \<Rightarrow> int \<Rightarrow> world \<Rightarrow> bundle_outcome \<times> world" where
  "sync_bundle e bundle locationGid variant newAvailable w =
     (case calculateBundleAdjustments e (inventory w) bundle locationGid variant newAvailable of
        Inl err \<Rightarrow> (Threw err, w)
      | Inr adjustments \<Rightarrow>
          (case adjustInventoryLevels e adjustments ''correction'' (inventory w) of
             (Some err, led') \<Rightarrow> (Threw err, w\<lparr>inventory := led'\<rparr>)
           | (None, led') \<Rightarrow> (Adjusted (length adjustments), w\<lparr>inventory := led'\<rparr>)))"

text \<open>
  The body of the loop. The clock is read for the lock id (\<open>Date.now()\<close>) and again in
  \<open>acquireSyncLock\<close> (\<open>new Date()\<close>); the \<open>finally\<close> releases the lock after the \<open>try\<close>
  block however that ended. \<open>totalAdjustments\<close> adds up the lengths of the adjustment
  arrays, each of at most one element, over an array of bundles: a count that stays below
  \<open>2^32\<close>, where the addition of numbers is exact.
\<close>

definition process_bundle ::
  "env \<Rightarrow> InventoryUpdateEvent \<Rightarrow> string \<Rightarrow> string \<Rightarrow> Bundle \<Rightarrow> world
     \<Rightarrow> bundle_outcome \<times> world" where
  "process_bundle e event variant locationGid bundle w =
     (let (t, w1) = Date_now e w;
          lockId = sync_lock_id bundle (locationId event) t;
          (now, w2) = Date_now e w1;
          (lockAcquired, locks) = acquireSyncLock now lockId (bundle_id bundle) (syncLocks w2);
          w3 = w2\<lparr>syncLocks := locks\<rparr>
      in if \<not> lockAcquired then (Skipped, w3)
         else let (outcome, w4) = sync_bundle e bundle locationGid variant (available event) w3
              in (outcome, w4\<lparr>syncLocks := releaseSyncLock lockId (syncLocks w4)\<rparr>))"

fun process_bundles ::
  "env \<Rightarrow> InventoryUpdateEvent \<Rightarrow> string \<Rightarrow> string \<Rightarrow> Bundle list \<Rightarrow> nat \<Rightarrow> world
     \<Rightarrow> (error + nat) \<times> world" where
  "process_bundles e event variant locationGid [] totalAdjustments w = (Inr totalAdjustments, w)"
| "process_bundles e event variant locationGid (bundle # rest) totalAdjustments w =
     (case process_bundle e event variant locationGid bundle w of
        (Skipped, w') \<Rightarrow> process_bundles e event variant locationGid rest totalAdjustments w'
      | (Threw err, w') \<Rightarrow> (Inl err, w')
      | (Adjusted n, w') \<Rightarrow>
          process_bundles e event variant locationGid rest (totalAdjustments + n) w')"

text \<open>
  \<open>processInventoryUpdate\<close>: the returned \<open>SyncResult\<close>, or the exception that leaves the
  function, and the world afterwards. \<open>!variantGid\<close> holds for \<open>null\<close> and for the empty
  string.
\<close>

definition processInventoryUpdate ::
  "env \<Rightarrow> InventoryUpdateEvent \<Rightarrow> world \<Rightarrow> (error + SyncResult) \<times> world" where
  "processInventoryUpdate e event w =
     (case findVariantForInventoryItem e (inventoryItemId event) of
        None \<Rightarrow>
          (Inr \<lparr>processed = False, bundlesAffected = 0, adjustmentsMade = 0,
                skipped = Some ''Could not find variant for inventory item'', error = None\<rparr>, w)
      | Some variant \<Rightarrow>
          if variant = [] then
            (Inr \<lparr>processed = False, bundlesAffected = 0, adjustmentsMade = 0,
                  skipped = Some ''Could not find variant for inventory item'', error = None\<rparr>, w)
          else
            let bundles = findBundlesForVariant e (shop event) variant
            in if length bundles = 0 then
                 (Inr \<lparr>processed = True, bundlesAffected = 0, adjustmentsMade = 0,
                       skipped = Some ''Variant is not part of any bundle'', error = None\<rparr>, w)
               else
                 let locationGid = ''gid://shopify/Location/'' @ String_number (locationId event)
                 in case process_bundles e event variant locationGid bundles 0 w of
                      (Inl err, w') \<Rightarrow> (Inl err, w')
                    | (Inr totalAdjustments, w') \<Rightarrow>
                        (Inr \<lparr>processed = True, bundlesAffected = length bundles,
                              adjustmentsMade = totalAdjustments, skipped = None, error = None\<rparr>,
                         w'))"

text \<open>
  The variant of an event, when the look-up gives one that passes the test \<open>!variantGid\<close>.
\<close>

definition resolved_variant :: "env \<Rightarrow> InventoryUpdateEvent \<Rightarrow> string option" where
  "resolved_variant e event =
     (case findVariantForInventoryItem e (inventoryItemId event) of
        None \<Rightarrow> None
      | Some variant \<Rightarrow> if variant = [] then None else Some variant)"

section \<open>A gateway that books every change, and a small shop\<close>

text \<open>
  The behaviour of \<open>inventoryAdjustQuantities\<close> when the platform accepts a call: every
  change adds its delta to the quantity of its inventory item at its location (an item without
  a quantity there counting as 0), and the call responds.
\<close>

definition apply_change :: "ledger \<Rightarrow> InventoryAdjustment \<Rightarrow> ledger" where
  "apply_change led c =
     led((adj_inventoryItemId c, adj_locationId c) \<mapsto>
           (case led (adj_inventoryItemId c, adj_locationId c) of Some q \<Rightarrow> q | None \<Rightarrow> 0)
           + delta c)"

definition apply_changes :: "InventoryAdjustment list \<Rightarrow> ledger \<Rightarrow> ledger" where
  "apply_changes changes led = foldl apply_change led changes"

text \<open>
  A shop with one same-product bundle: the 24-pack (inventory item 124) is made of 24
  singles (inventory item 101). At location 7 there are 48 singles, and the 24-pack is
  listed with 5. The gateway books every change, the lock table is empty.
\<close>

definition pack_bundle :: Bundle where
  "pack_bundle =
     \<lparr>bundle_id = ''b1'', shopId = ''shop'', name = ''24-Pack'', parentGid = ''variant/pack24'',
      children = [\<lparr>child_id = ''c1'', childGid = ''variant/single'', child_quantity = 24\<rparr>]\<rparr>"

definition pack_shop :: env where
  "pack_shop =
     \<lparr>clock = (\<lambda>n. 1000 + int n),
      bundleTable = [pack_bundle],
      variantOfInventoryItem =
        map_of [(''gid://shopify/InventoryItem/124'', ''variant/pack24''),
                (''gid://shopify/InventoryItem/101'', ''variant/single'')],
      inventoryItemOfVariant =
        map_of [(''variant/pack24'', ''gid://shopify/InventoryItem/124''),
                (''variant/single'', ''gid://shopify/InventoryItem/101'')],
      inventoryAdjustQuantities = (\<lambda>reason changes led. (None, apply_changes changes led))\<rparr>"

definition pack_world :: world where
  "pack_world =
     \<lparr>syncLocks = [],
      inventory =
        map_of [((''gid://shopify/InventoryItem/124'', ''gid://shopify/Location/7''), 5),
                ((''gid://shopify/InventoryItem/101'', ''gid://shopify/Location/7''), 48)],
      ticks = 0\<rparr>"

text \<open>The webhook after the stock of the 24-pack itself was set to 5 at location 7.\<close>

definition pack_event :: InventoryUpdateEvent where
  "pack_event = \<lparr>inventoryItemId = 124, locationId = 7, available = 5, shop = ''shop''\<rparr>"

text \<open>The webhook after the stock of the singles was set to 48 at location 7.\<close>

definition single_event :: InventoryUpdateEvent where
  "single_event = \<lparr>inventoryItemId = 101, locationId = 7, available = 48, shop = ''shop''\<rparr>"

text \<open>The same shop behind a gateway whose every call throws and changes nothing.\<close>

definition failing_shop :: env where
  "failing_shop =
     pack_shop\<lparr>inventoryAdjustQuantities := (\<lambda>reason changes led. (Some (Error ''fetch failed''), led))\<rparr>"

text \<open>
  A lock table in which the id that the first round of a run at location 7 asks for is
  taken by a live lock.
\<close>

definition contended_world :: world where
  "contended_world =
     pack_world\<lparr>syncLocks := [\<lparr>lock_id = ''sync-b1-7-1000'', bundleId = ''b1'', expiresAt = 5000\<rparr>]\<rparr>"

section \<open>Properties of the rounding\<close>

lemma pow2_powi: "pow2 k = 2 powi k"
  by (simp add: pow2_def power_int_def field_simps)

lemma pow2_pos: "0 < pow2 k"
  by (simp add: pow2_def)

lemma pow2_add: "pow2 (a + b) = pow2 a * pow2 b"
  by (simp add: pow2_powi power_int_add)

lemma pow2_nat: "0 \<le> k \<Longrightarrow> pow2 k = 2 ^ nat k"
  by (simp add: pow2_def)

lemma pow2_strict_mono: "a < b \<Longrightarrow> pow2 a < pow2 b"
  unfolding pow2_powi by (rule power_int_strict_increasing) simp_all

lemma pow2_mono: "a \<le> b \<Longrightarrow> pow2 a \<le> pow2 b"
  unfolding pow2_powi by (rule power_int_increasing) simp_all

lemma pow2_less_iff: "pow2 a < pow2 b \<longleftrightarrow> a < b"
  using pow2_strict_mono [of a b] pow2_mono [of b a] by (auto simp: not_less [symmetric])

lemma pow2_le_iff: "pow2 a \<le> pow2 b \<longleftrightarrow> a \<le> b"
  using pow2_strict_mono [of b a] pow2_mono [of a b] by (auto simp: not_le [symmetric])

lemma exponent_bounds:
  assumes "0 < x"
  shows "pow2 (exponent x) \<le> x" and "x < pow2 (exponent x + 1)"
proof -
  have "pow2 (exponent x) \<le> x \<and> x < pow2 (exponent x + 1)"
  proof (cases "1 \<le> x")
    case True
    define n where "n = \<lfloor>x\<rfloor>"
    have n: "1 \<le> n" "of_int n \<le> x" "x < of_int n + 1"
      using True by (simp_all add: n_def le_floor_iff) linarith
    have L: "1 \<le> bitlen n" using n(1) bitlen_eq_zero_iff [of n] bitlen_nonneg [of n] by linarith
    from bitlen_bounds [of n] n(1)
    have lo: "2 ^ nat (bitlen n - 1) \<le> n" and hi: "n < 2 ^ nat (bitlen n)" by auto
    have e: "exponent x = bitlen n - 1" using True by (simp add: exponent_def n_def)
    have "pow2 (bitlen n - 1) = of_int (2 ^ nat (bitlen n - 1))"
      using L by (simp add: pow2_nat)
    also have "\<dots> \<le> of_int n" using lo by (simp only: of_int_le_iff)
    finally have 1: "pow2 (exponent x) \<le> x" using n(2) e by simp
    have "n + 1 \<le> 2 ^ nat (bitlen n)" using hi by simp
    then have "(of_int (n + 1) :: rat) \<le> of_int (2 ^ nat (bitlen n))" by (simp only: of_int_le_iff)
    moreover have "pow2 (bitlen n - 1 + 1) = of_int (2 ^ nat (bitlen n))"
      using L by (simp add: pow2_nat)
    ultimately have 2: "x < pow2 (exponent x + 1)" using n(3) e by simp
    from 1 2 show ?thesis ..
  next
    case False
    define y where "y = 1 / x"
    have y: "1 < y" using False assms by (simp add: y_def)
    define c where "c = \<lceil>y\<rceil>"
    have c: "y \<le> of_int c" "of_int c - 1 < y" "2 \<le> c"
      using y by (simp_all add: c_def) linarith+
    define L where "L = bitlen (c - 1)"
    from bitlen_bounds [of "c - 1"] c(3)
    have lo: "2 ^ nat (L - 1) \<le> c - 1" and hi: "c - 1 < 2 ^ nat L" by (auto simp: L_def)
    have L: "1 \<le> L"
      using c(3) bitlen_eq_zero_iff [of "c - 1"] bitlen_nonneg [of "c - 1"] unfolding L_def by linarith
    have e: "exponent x = - L" using False by (simp add: exponent_def L_def c_def y_def)
    have "c \<le> 2 ^ nat L" using hi by simp
    then have "(of_int c :: rat) \<le> 2 ^ nat L" by simp
    with c(1) have yle: "y \<le> 2 ^ nat L" by linarith
    have p1: "pow2 (- L) = 1 / 2 ^ nat L" using L by (simp add: pow2_def)
    have 1: "pow2 (exponent x) \<le> x"
      unfolding e p1 using yle assms by (simp add: y_def field_simps)
    have "(of_int (2 ^ nat (L - 1)) :: rat) \<le> of_int (c - 1)"
      using lo by (simp only: of_int_le_iff)
    then have "(2 ^ nat (L - 1) :: rat) \<le> of_int c - 1" by simp
    with c(2) have ygt: "2 ^ nat (L - 1) < y" by linarith
    have p2: "pow2 (- L + 1) = 1 / 2 ^ nat (L - 1)"
    proof (cases "L = 1")
      case True then show ?thesis by (simp add: pow2_def)
    next
      case False
      with L have "- L + 1 < 0" "nat (- (- L + 1)) = nat (L - 1)" by auto
      then show ?thesis by (simp add: pow2_def)
    qed
    have 2: "x < pow2 (exponent x + 1)"
      unfolding e p2 using ygt assms by (simp add: y_def field_simps)
    from 1 2 show ?thesis ..
  qed
  then show "pow2 (exponent x) \<le> x" and "x < pow2 (exponent x + 1)" by auto
qed

lemma rhe_of_int: "round_half_even (of_int n) = n"
  by (simp add: round_half_even_def)

lemma rhe_bounds: "\<lfloor>x\<rfloor> \<le> round_half_even x" "round_half_even x \<le> \<lfloor>x\<rfloor> + 1"
  by (simp_all add: round_half_even_def Let_def)

lemma rhe_less: assumes "x < of_int k - 1 / 2" shows "round_half_even x < k"
proof -
  have f: "\<lfloor>x\<rfloor> \<le> k - 1" using assms by (simp add: floor_le_iff) linarith
  show ?thesis
  proof (cases "\<lfloor>x\<rfloor> = k - 1")
    case True
    then have "x - of_int \<lfloor>x\<rfloor> < 1 / 2" using assms by simp
    then show ?thesis using True by (simp add: round_half_even_def Let_def)
  next
    case False
    with f rhe_bounds(2) [of x] show ?thesis by linarith
  qed
qed

lemma rhe_greater: assumes "of_int k + 1 / 2 < x" shows "k < round_half_even x"
proof -
  have f: "k \<le> \<lfloor>x\<rfloor>" using assms by (simp add: le_floor_iff)
  show ?thesis
  proof (cases "\<lfloor>x\<rfloor> = k")
    case True
    then have "1 / 2 < x - of_int \<lfloor>x\<rfloor>" using assms by simp
    then show ?thesis using True by (simp add: round_half_even_def Let_def)
  next
    case False
    with f rhe_bounds(1) [of x] show ?thesis by linarith
  qed
qed


lemma round53_pos:
  "0 < x \<Longrightarrow> round53 x =
     of_int (round_half_even (x / pow2 (exponent x - 52))) * pow2 (exponent x - 52)"
  by (simp add: round53_def Let_def)

lemma round53_minus: "round53 (- x) = - round53 x"
  by (simp add: round53_def Let_def)

lemma exponent_le_52:
  assumes "0 < x" and "x < 2 ^ 53"
  shows "exponent x \<le> 52"
proof -
  have "pow2 (exponent x) < pow2 53"
    using exponent_bounds(1) [OF assms(1)] assms(2) by (simp add: pow2_def)
  then show ?thesis by (simp add: pow2_less_iff)
qed

lemma ulp_scale:
  assumes "e \<le> 52"
  shows "of_int k / pow2 (e - 52) = of_int (k * 2 ^ nat (52 - e))"
proof -
  have "pow2 (e - 52) * pow2 (52 - e) = 1"
    using pow2_add [of "e - 52" "52 - e"] by (simp add: pow2_def)
  moreover have "pow2 (52 - e) = 2 ^ nat (52 - e)" using assms by (simp add: pow2_nat)
  ultimately have "1 / pow2 (e - 52) = 2 ^ nat (52 - e)"
    using pow2_pos [of "e - 52"] by (simp add: field_simps)
  then have "of_int k / pow2 (e - 52) = of_int k * 2 ^ nat (52 - e)"
    by (metis times_divide_eq_right mult.right_neutral)
  then show ?thesis by simp
qed

lemma round53_upper:
  assumes x: "0 < x" and e: "exponent x \<le> 52"
    and lt: "x < of_int k - pow2 (exponent x - 52) / 2"
  shows "round53 x < of_int k"
proof -
  let ?u = "pow2 (exponent x - 52)"
  have u: "0 < ?u" by (rule pow2_pos)
  have "x / ?u < (of_int k - ?u / 2) / ?u" using lt u by (simp add: divide_strict_right_mono)
  also have "\<dots> = of_int k / ?u - 1 / 2" using u by (simp add: field_simps)
  finally have "x / ?u < of_int (k * 2 ^ nat (52 - exponent x)) - 1 / 2"
    by (simp only: ulp_scale [OF e])
  then have "round_half_even (x / ?u) < k * 2 ^ nat (52 - exponent x)" by (rule rhe_less)
  then have "(of_int (round_half_even (x / ?u)) :: rat) < of_int (k * 2 ^ nat (52 - exponent x))"
    by (simp only: of_int_less_iff)
  also have "\<dots> = of_int k / ?u" by (simp only: ulp_scale [OF e])
  finally have "of_int (round_half_even (x / ?u)) * ?u < of_int k"
    using u by (simp add: field_simps)
  then show ?thesis by (simp only: round53_pos [OF x])
qed

lemma round53_lower:
  assumes x: "0 < x" and e: "exponent x \<le> 52"
    and gt: "of_int k + pow2 (exponent x - 52) / 2 < x"
  shows "of_int k < round53 x"
proof -
  let ?u = "pow2 (exponent x - 52)"
  have u: "0 < ?u" by (rule pow2_pos)
  have "(of_int k + ?u / 2) / ?u < x / ?u" using gt u by (simp add: divide_strict_right_mono)
  moreover have "(of_int k + ?u / 2) / ?u = of_int k / ?u + 1 / 2" using u by (simp add: field_simps)
  ultimately have "of_int (k * 2 ^ nat (52 - exponent x)) + 1 / 2 < x / ?u"
    by (simp only: ulp_scale [OF e])
  then have "k * 2 ^ nat (52 - exponent x) < round_half_even (x / ?u)" by (rule rhe_greater)
  then have "(of_int (k * 2 ^ nat (52 - exponent x)) :: rat) < of_int (round_half_even (x / ?u))"
    by (simp only: of_int_less_iff)
  then have "of_int k / ?u < of_int (round_half_even (x / ?u))"
    by (simp only: ulp_scale [OF e])
  with u have "of_int k < of_int (round_half_even (x / ?u)) * ?u"
    by (metis pos_divide_less_eq)
  then show ?thesis by (simp only: round53_pos [OF x])
qed

lemma round53_of_int_pos:
  assumes "0 < n" and "n < 2 ^ 53"
  shows "round53 (of_int n) = of_int n"
proof -
  let ?x = "of_int n :: rat"
  have x: "0 < ?x" using assms(1) by simp
  have "?x < 2 ^ 53" using assms(2) by simp
  from exponent_le_52 [OF x this] have e: "exponent ?x \<le> 52" .
  let ?u = "pow2 (exponent ?x - 52)"
  have "round_half_even (?x / ?u) = n * 2 ^ nat (52 - exponent ?x)"
    by (simp only: ulp_scale [OF e] rhe_of_int)
  then have "of_int (round_half_even (?x / ?u)) * ?u = (of_int n / ?u) * ?u"
    by (simp only: ulp_scale [OF e])
  also have "\<dots> = ?x" using pow2_pos [of "exponent ?x - 52"] by simp
  finally show ?thesis by (simp only: round53_pos [OF x])
qed

lemma round53_of_int:
  assumes "\<bar>n\<bar> < 2 ^ 53"
  shows "round53 (of_int n) = of_int n"
proof -
  consider "n = 0" | "0 < n" | "n < 0" by linarith
  then show ?thesis
  proof cases
    case 1 then show ?thesis by (simp add: round53_def)
  next
    case 2 with assms show ?thesis by (intro round53_of_int_pos) simp_all
  next
    case 3
    with assms have "round53 (of_int (- n)) = of_int (- n)" by (intro round53_of_int_pos) simp_all
    then show ?thesis using round53_minus [of "of_int n"] by simp
  qed
qed

lemma round53_positive:
  assumes "0 < x"
  shows "0 < round53 x"
proof -
  let ?u = "pow2 (exponent x - 52)"
  have u: "0 < ?u" by (rule pow2_pos)
  have "pow2 (exponent x) = pow2 52 * ?u" using pow2_add [of 52 "exponent x - 52"] by simp
  then have "pow2 52 * ?u \<le> x" using exponent_bounds(1) [OF assms] by simp
  then have "pow2 52 \<le> x / ?u" using u by (simp add: field_simps)
  moreover have "1 \<le> pow2 52" by (simp add: pow2_def)
  ultimately have "1 \<le> x / ?u" by linarith
  then have "1 \<le> \<lfloor>x / ?u\<rfloor>" by (simp add: le_floor_iff)
  with rhe_bounds(1) [of "x / ?u"] have "0 < round_half_even (x / ?u)" by linarith
  then have "0 < of_int (round_half_even (x / ?u)) * ?u" using u by simp
  then show ?thesis by (simp only: round53_pos [OF assms])
qed

lemma round53_quotient_between:
  assumes s: "0 < s" "s < 2 ^ 53" and m: "0 < m" and nd: "\<not> m dvd s"
  shows "of_int (s div m) < round53 (of_int s / of_int m)
       \<and> round53 (of_int s / of_int m) < of_int (s div m) + 1"
proof -
  let ?x = "of_int s / of_int m :: rat"
  let ?q = "s div m"
  let ?r = "s mod m"
  have x: "0 < ?x" using s m by simp
  have "?x \<le> of_int s" using s m by (simp add: field_simps mult_le_cancel_left1)
  moreover have "(of_int s :: rat) < 2 ^ 53" using s(2) by simp
  ultimately have "?x < 2 ^ 53" by linarith
  from exponent_le_52 [OF x this] have e: "exponent ?x \<le> 52" .
  let ?u = "pow2 (exponent ?x - 52)"
  have "?r \<noteq> 0" using nd by (simp add: dvd_eq_mod_eq_0)
  with pos_mod_bound [OF m, of s] pos_mod_sign [OF m, of s]
  have r: "1 \<le> ?r" "?r \<le> m - 1" by linarith+
  have xq: "?x = of_int ?q + of_int ?r / of_int m"
  proof -
    have "s = ?q * m + ?r" by simp
    then have "(of_int s :: rat) = of_int ?q * of_int m + of_int ?r"
      by (metis of_int_add of_int_mult)
    then show ?thesis using m by (simp add: field_simps)
  qed
  have half: "?u / 2 < 1 / of_int m"
  proof -
    have "pow2 (exponent ?x) \<le> ?x" by (rule exponent_bounds(1) [OF x])
    then have "of_int m * pow2 (exponent ?x) \<le> of_int s" using m by (simp add: field_simps)
    also have "(of_int s :: rat) < pow2 53" using s(2) by (simp add: pow2_def)
    finally have "of_int m * pow2 (exponent ?x) * pow2 (- 53) < pow2 53 * pow2 (- 53)"
      using pow2_pos [of "- 53"] by (simp only: mult_strict_right_mono)
    moreover have "pow2 53 * pow2 (- 53) = 1" using pow2_add [of 53 "- 53"] by (simp add: pow2_def)
    moreover have "pow2 (exponent ?x) * pow2 (- 53) = ?u / 2"
    proof -
      have "pow2 (exponent ?x - 52) = pow2 (exponent ?x - 53) * pow2 1"
        using pow2_add [of "exponent ?x - 53" 1] by simp
      moreover have "pow2 (exponent ?x) * pow2 (- 53) = pow2 (exponent ?x - 53)"
        using pow2_add [of "exponent ?x" "- 53"] by simp
      ultimately show ?thesis by (simp add: pow2_def)
    qed
    ultimately have "of_int m * (?u / 2) < 1" by (simp add: mult.assoc)
    then show ?thesis using m by (simp add: field_simps)
  qed
  have up: "?x \<le> of_int (?q + 1) - 1 / of_int m"
  proof -
    have "(of_int ?r :: rat) \<le> of_int m - 1" using r(2) by (metis of_int_1 of_int_diff of_int_le_iff)
    then have "of_int ?r / of_int m \<le> (of_int m - 1) / (of_int m :: rat)"
      using m by (simp add: divide_right_mono)
    also have "\<dots> = 1 - 1 / of_int m" using m by (simp add: field_simps)
    finally show ?thesis unfolding xq by simp
  qed
  have lo: "of_int ?q + 1 / of_int m \<le> ?x"
  proof -
    have "(1 :: rat) \<le> of_int ?r" using r(1) by simp
    then have "1 / (of_int m :: rat) \<le> of_int ?r / of_int m" using m by (simp add: divide_right_mono)
    then show ?thesis unfolding xq by simp
  qed
  have "round53 ?x < of_int (?q + 1)"
    using up half by (intro round53_upper [OF x e]) linarith
  moreover have "of_int ?q < round53 ?x"
    using lo half by (intro round53_lower [OF x e]) linarith
  ultimately show ?thesis by simp
qed

lemma floor_number_div_pos:
  assumes "0 \<le> s" "s < 2 ^ 53" "0 < m"
  shows "\<lfloor>number_div s m\<rfloor> = s div m"
proof (cases "m dvd s")
  case True
  then have "(of_int s / of_int m :: rat) = of_int (s div m)" using assms(3) by auto
  moreover have "\<bar>s div m\<bar> < 2 ^ 53"
    using assms by (smt (verit) div_by_1 pos_imp_zdiv_nonneg_iff zdiv_mono2)
  ultimately show ?thesis by (simp add: number_div_def round53_of_int)
next
  case False
  then have "0 < s" using assms(1) by (cases "s = 0") auto
  from round53_quotient_between [OF this assms(2,3) False]
  show ?thesis unfolding number_div_def by (simp add: floor_eq_iff)
qed

lemma floor_number_div_neg:
  assumes "s < 0" "- (2 ^ 53) < s" "0 < m"
  shows "\<lfloor>number_div s m\<rfloor> = s div m"
proof -
  have nd: "number_div s m = - round53 (of_int (- s) / of_int m)"
    using round53_minus [of "of_int (- s) / of_int m"] by (simp add: number_div_def)
  show ?thesis
  proof (cases "m dvd s")
    case True
    then have "(of_int s / of_int m :: rat) = of_int (s div m)" using assms(3) by auto
    moreover have "\<bar>s div m\<bar> < 2 ^ 53"
    proof -
      have "s \<le> s div m" using assms by (smt (verit) div_by_1 zdiv_mono2_neg)
      moreover have "s div m < 0" using assms by (simp add: pos_imp_zdiv_neg_iff)
      ultimately show ?thesis using assms(2) by linarith
    qed
    ultimately show ?thesis by (simp add: number_div_def round53_of_int)
  next
    case False
    then have nd': "\<not> m dvd - s" by simp
    have "0 < - s" "- s < 2 ^ 53" using assms by simp_all
    from round53_quotient_between [OF this assms(3) nd']
    have b: "of_int ((- s) div m) < round53 (of_int (- s) / of_int m)"
        "round53 (of_int (- s) / of_int m) < of_int ((- s) div m) + 1" by simp_all
    have "s div m = - ((- s) div m) - 1"
      using False assms(3) by (simp add: zdiv_zminus1_eq_if dvd_eq_mod_eq_0)
    then show ?thesis unfolding nd using b by (simp add: floor_eq_iff)
  qed
qed

lemma floor_number_div:
  assumes "\<bar>s\<bar> < 2 ^ 53" "0 < m"
  shows "\<lfloor>number_div s m\<rfloor> = s div m"
  using assms floor_number_div_pos [of s m] floor_number_div_neg [of s m]
  by (cases "0 \<le> s") auto

lemma floor_number_div_negative:
  assumes "s < 0" "0 < m"
  shows "\<lfloor>number_div s m\<rfloor> < 0"
proof -
  have "0 < (of_int (- s) / of_int m :: rat)" using assms by (intro divide_pos_pos) simp_all
  from round53_positive [OF this]
  have "number_div s m < 0"
    using round53_minus [of "of_int (- s) / of_int m"] by (simp add: number_div_def)
  then show ?thesis by (simp add: floor_less_iff)
qed

lemma round53_of_int_integral: "\<exists>k. round53 (of_int n) = of_int k"
proof -
  have pos: "\<exists>k. round53 (of_int n) = of_int k" if "0 < n" for n
  proof (cases "n < 2 ^ 53")
    case True
    with that show ?thesis using round53_of_int_pos by blast
  next
    case False
    let ?x = "of_int n :: rat"
    have x: "0 < ?x" using that by simp
    have "pow2 53 \<le> ?x" using False by (simp add: pow2_def)
    also have "?x < pow2 (exponent ?x + 1)" by (rule exponent_bounds(2) [OF x])
    finally have "52 \<le> exponent ?x" by (simp add: pow2_less_iff)
    then have "pow2 (exponent ?x - 52) = of_int (2 ^ nat (exponent ?x - 52))"
      by (simp add: pow2_nat)
    then have "round53 ?x = of_int (round_half_even (?x / pow2 (exponent ?x - 52))
                 * 2 ^ nat (exponent ?x - 52))"
      by (simp only: round53_pos [OF x] of_int_mult)
    then show ?thesis ..
  qed
  consider "n = 0" | "0 < n" | "n < 0" by linarith
  then show ?thesis
  proof cases
    case 1
    then have "round53 (of_int n) = of_int 0" by (simp add: round53_def)
    then show ?thesis ..
  next
    case 2 then show ?thesis by (rule pos)
  next
    case 3
    then obtain k where "round53 (of_int (- n)) = of_int k" using pos [of "- n"] by auto
    then have "round53 (of_int n) = of_int (- k)" using round53_minus [of "of_int n"] by simp
    then show ?thesis ..
  qed
qed

lemma rhe_mono:
  assumes "a \<le> b"
  shows "round_half_even a \<le> round_half_even b"
proof (cases "\<lfloor>a\<rfloor> = \<lfloor>b\<rfloor>")
  case True
  then have "a - of_int \<lfloor>a\<rfloor> \<le> b - of_int \<lfloor>b\<rfloor>" using assms by simp
  then show ?thesis unfolding round_half_even_def Let_def using True by auto
next
  case False
  then have "\<lfloor>a\<rfloor> < \<lfloor>b\<rfloor>" using floor_mono [OF assms] by linarith
  then have "\<lfloor>a\<rfloor> + 1 \<le> \<lfloor>b\<rfloor>" by simp
  with rhe_bounds(2) [of a] rhe_bounds(1) [of b] show ?thesis by linarith
qed

lemma round53_range:
  assumes "0 < x"
  shows "pow2 (exponent x) \<le> round53 x" and "round53 x \<le> pow2 (exponent x + 1)"
proof -
  let ?u = "pow2 (exponent x - 52)"
  have u: "0 < ?u" by (rule pow2_pos)
  have lo: "pow2 (exponent x) = 2 ^ 52 * ?u"
    using pow2_add [of 52 "exponent x - 52"] by (simp add: pow2_nat)
  have hi: "pow2 (exponent x + 1) = 2 ^ 53 * ?u"
    using pow2_add [of 53 "exponent x - 52"] by (simp add: pow2_nat add.commute)
  have "2 ^ 52 * ?u \<le> x" using exponent_bounds(1) [OF assms] lo by simp
  then have "(2 ^ 52 :: rat) \<le> x / ?u" using u by (simp add: pos_le_divide_eq)
  then have "(of_int (2 ^ 52) :: rat) \<le> x / ?u" by simp
  then have "2 ^ 52 \<le> \<lfloor>x / ?u\<rfloor>" by (simp only: le_floor_iff)
  with rhe_bounds(1) [of "x / ?u"] have "2 ^ 52 \<le> round_half_even (x / ?u)" by linarith
  then have "(of_int (2 ^ 52) :: rat) \<le> of_int (round_half_even (x / ?u))"
    by (simp only: of_int_le_iff)
  then have "2 ^ 52 * ?u \<le> of_int (round_half_even (x / ?u)) * ?u"
    using u by (simp add: mult_le_cancel_right)
  then show "pow2 (exponent x) \<le> round53 x" by (simp add: round53_pos [OF assms] lo)
  have "x < 2 ^ 53 * ?u" using exponent_bounds(2) [OF assms] hi by simp
  then have "x / ?u < 2 ^ 53" using u by (simp add: pos_divide_less_eq)
  then have "x / ?u < of_int (2 ^ 53)" by simp
  then have "\<lfloor>x / ?u\<rfloor> < 2 ^ 53" by (simp only: floor_less_iff)
  with rhe_bounds(2) [of "x / ?u"] have "round_half_even (x / ?u) \<le> 2 ^ 53" by linarith
  then have "(of_int (round_half_even (x / ?u)) :: rat) \<le> of_int (2 ^ 53)"
    by (simp only: of_int_le_iff)
  then have "of_int (round_half_even (x / ?u)) * ?u \<le> 2 ^ 53 * ?u"
    using u by (simp add: mult_le_cancel_right)
  then show "round53 x \<le> pow2 (exponent x + 1)" by (simp add: round53_pos [OF assms] hi)
qed

lemma round53_mono_pos:
  assumes "0 < x" and "x \<le> y"
  shows "round53 x \<le> round53 y"
proof -
  have y: "0 < y" using assms by linarith
  have "pow2 (exponent x) < pow2 (exponent y + 1)"
    using exponent_bounds(1) [OF assms(1)] exponent_bounds(2) [OF y] assms(2) by linarith
  then have le: "exponent x \<le> exponent y" by (simp add: pow2_less_iff)
  show ?thesis
  proof (cases "exponent x = exponent y")
    case True
    let ?u = "pow2 (exponent y - 52)"
    have u: "0 < ?u" by (rule pow2_pos)
    have "x / ?u \<le> y / ?u" using assms(2) u by (simp add: divide_le_cancel)
    from rhe_mono [OF this]
    have "(of_int (round_half_even (x / ?u)) :: rat) \<le> of_int (round_half_even (y / ?u))"
      by (simp only: of_int_le_iff)
    then have "of_int (round_half_even (x / ?u)) * ?u \<le> of_int (round_half_even (y / ?u)) * ?u"
      using u by (simp add: mult_le_cancel_right)
    then show ?thesis by (simp add: round53_pos [OF assms(1)] round53_pos [OF y] True)
  next
    case False
    with le have "exponent x + 1 \<le> exponent y" by simp
    then have "pow2 (exponent x + 1) \<le> pow2 (exponent y)" by (rule pow2_mono)
    with round53_range(2) [OF assms(1)] round53_range(1) [OF y] show ?thesis by linarith
  qed
qed

lemma round53_nonneg: "0 \<le> x \<Longrightarrow> 0 \<le> round53 x"
  using round53_positive [of x] by (cases "x = 0") (simp_all add: round53_def)

lemma round53_mono:
  assumes "0 \<le> x" and "x \<le> y"
  shows "round53 x \<le> round53 y"
proof (cases "x = 0")
  case True
  then have "round53 x = 0" by (simp add: round53_def)
  with round53_nonneg [of y] assms show ?thesis by simp
next
  case False
  with assms have "0 < x" by simp
  then show ?thesis using assms(2) by (rule round53_mono_pos)
qed

lemma number_div_mono:
  assumes "0 \<le> s" and "s \<le> s'" and "0 < m"
  shows "\<lfloor>number_div s m\<rfloor> \<le> \<lfloor>number_div s' m\<rfloor>"
proof -
  have "(of_int s :: rat) / of_int m \<le> of_int s' / of_int m"
    using assms by (simp add: divide_le_cancel)
  moreover have "(0 :: rat) \<le> of_int s / of_int m" using assms by simp
  ultimately have "number_div s m \<le> number_div s' m"
    unfolding number_div_def by (intro round53_mono)
  then show ?thesis by (rule floor_mono)
qed

lemma number_div_nonneg:
  assumes "0 \<le> s" and "0 < m"
  shows "0 \<le> \<lfloor>number_div s m\<rfloor>"
proof -
  have "(0 :: rat) \<le> of_int s / of_int m" using assms by simp
  then have "0 \<le> number_div s m" unfolding number_div_def by (rule round53_nonneg)
  then show ?thesis by simp
qed

lemma safe_is_number: "\<bar>n\<bar> < 2 ^ 53 \<Longrightarrow> is_number n"
  unfolding is_number_def by (rule round53_of_int)

lemma number_div_one: "is_number s \<Longrightarrow> number_div s 1 = of_int s"
  by (simp add: number_div_def is_number_def)

lemma number_grid:
  assumes "0 < n" and "is_number n"
  shows "\<exists>j. (of_int n :: rat) = of_int j * pow2 (exponent (of_int n) - 52)"
proof -
  have "0 < (of_int n :: rat)" using assms(1) by simp
  from round53_pos [OF this] assms(2) show ?thesis unfolding is_number_def by metis
qed

lemma quotient_below_one:
  assumes s: "0 < s" "is_number s" and m: "is_number m" and lt: "s < m"
  shows "(of_int s :: rat) * 2 ^ 53 \<le> (2 ^ 53 - 1) * of_int m"
proof -
  let ?s = "of_int s :: rat" and ?m = "of_int m :: rat"
  let ?us = "pow2 (exponent ?s - 52)" and ?um = "pow2 (exponent ?m - 52)"
  have sp: "0 < ?s" and mp: "0 < ?m" and sm: "?s < ?m" using s(1) lt by simp_all
  have us: "0 < ?us" and um: "0 < ?um" by (rule pow2_pos)+
  obtain j where j: "?s = of_int j * ?us" using number_grid [OF s] by blast
  have "0 < m" using s(1) lt by simp
  from number_grid [OF this m] obtain k where k: "?m = of_int k * ?um" by blast
  have top_s: "pow2 (exponent ?s + 1) = 2 ^ 53 * ?us"
    using pow2_add [of 53 "exponent ?s - 52"] by (simp add: pow2_nat add.commute)
  have top_m: "pow2 (exponent ?m + 1) = 2 ^ 53 * ?um"
    using pow2_add [of 53 "exponent ?m - 52"] by (simp add: pow2_nat add.commute)
  have hi_s: "?s < 2 ^ 53 * ?us" using exponent_bounds(2) [OF sp] top_s by simp
  have hi_m: "?m < 2 ^ 53 * ?um" using exponent_bounds(2) [OF mp] top_m by simp
  have "pow2 (exponent ?s) < pow2 (exponent ?m + 1)"
    using exponent_bounds(1) [OF sp] exponent_bounds(2) [OF mp] sm by linarith
  then have le: "exponent ?s \<le> exponent ?m" by (simp add: pow2_less_iff)
  show ?thesis
  proof (cases "exponent ?s = exponent ?m")
    case True
    have "of_int j * ?um < of_int k * ?um" using sm j k True by simp
    then have "(of_int j :: rat) < of_int k" using um by (simp add: mult_less_cancel_right)
    then have "j + 1 \<le> k" by simp
    then have "(of_int (j + 1) :: rat) \<le> of_int k" by (simp only: of_int_le_iff)
    then have "of_int (j + 1) * ?um \<le> of_int k * ?um"
      using um by (simp add: mult_le_cancel_right)
    then have "?s + ?um \<le> ?m" using j k True by (simp add: algebra_simps)
    then have "2 ^ 53 * ?s + 2 ^ 53 * ?um \<le> 2 ^ 53 * ?m" by simp
    with hi_m show ?thesis by (simp add: algebra_simps)
  next
    case False
    with le have "exponent ?s + 1 \<le> exponent ?m" by simp
    then have "pow2 (exponent ?s + 1) \<le> pow2 (exponent ?m)" by (rule pow2_mono)
    with exponent_bounds(1) [OF mp] top_s have big: "2 ^ 53 * ?us \<le> ?m" by simp
    have "of_int j * ?us < 2 ^ 53 * ?us" using hi_s j by simp
    then have "(of_int j :: rat) < 2 ^ 53" using us by (simp add: mult_less_cancel_right)
    then have "(of_int j :: rat) < of_int (2 ^ 53)" by simp
    then have "j < 2 ^ 53" by (simp only: of_int_less_iff)
    then have "j \<le> 2 ^ 53 - 1" by simp
    then have "(of_int j :: rat) \<le> of_int (2 ^ 53 - 1)" by (simp only: of_int_le_iff)
    then have "(of_int j :: rat) \<le> 2 ^ 53 - 1" by simp
    then have "of_int j * ?us \<le> (2 ^ 53 - 1) * ?us"
      using us by (simp only: mult_le_cancel_right) simp
    then have "?s * 2 ^ 53 \<le> (2 ^ 53 - 1) * (2 ^ 53 * ?us)" using j by simp
    also have "\<dots> \<le> (2 ^ 53 - 1) * ?m" using big by simp
    finally show ?thesis .
  qed
qed

lemma round53_below_one:
  "round53 (9007199254740991 / 9007199254740992) = 9007199254740991 / 9007199254740992"
  by code_simp

lemma floor_number_div_less:
  assumes "0 \<le> s" and "s < m" and "is_number s" and "is_number m"
  shows "\<lfloor>number_div s m\<rfloor> = 0"
proof (cases "s = 0")
  case True
  then show ?thesis by (simp add: number_div_def round53_def)
next
  case False
  with assms(1) have s: "0 < s" by simp
  let ?x = "of_int s / of_int m :: rat"
  have m: "(0 :: rat) < of_int m" using s assms(2) by simp
  have x: "0 < ?x" using s m by simp
  have "(of_int s :: rat) * 2 ^ 53 \<le> (2 ^ 53 - 1) * of_int m"
    using s assms(3,4,2) by (rule quotient_below_one)
  then have "?x \<le> (2 ^ 53 - 1) / 2 ^ 53" using m by (simp add: field_simps)
  then have "?x \<le> 9007199254740991 / 9007199254740992" by simp
  from round53_mono_pos [OF x this] have "round53 ?x < 1" by (simp add: round53_below_one)
  moreover have "0 < round53 ?x" using x by (rule round53_positive)
  ultimately show ?thesis unfolding number_div_def by (simp add: floor_eq_iff)
qed

section \<open>Properties of the availability calculator\<close>

lemma map_throw_length: "map_throw f xs = Inr ys \<Longrightarrow> length ys = length xs"
  by (induction xs arbitrary: ys) (auto split: sum.splits)

lemma Math_min_fold: "Math_min x xs = fold min xs x"
  by (induction xs arbitrary: x) (simp_all add: min.commute)

lemma Math_min_Min: "Math_min x xs = Min (set (x # xs))"
  unfolding Math_min_fold by (rule Min.set_eq_fold [symmetric])

lemma calculateBundleAvailability_safe:
  assumes "\<bar>s\<bar> < 2 ^ 53" and "0 < m"
  shows "calculateBundleAvailability s m = Inr (s div m)"
  using assms by (simp add: calculateBundleAvailability_def Math_floor_def floor_number_div)

lemma map_throw_all_positive:
  "\<forall>c\<in>set cs. 0 < quantity c \<Longrightarrow>
   map_throw componentAvailability cs
     = Inr (map (\<lambda>c. Math_floor (number_div (stock c) (quantity c))) cs)"
  by (induction cs) (simp_all add: componentAvailability_def)

lemma map_throw_some_nonpositive:
  "\<exists>c\<in>set cs. quantity c \<le> 0 \<Longrightarrow>
   map_throw componentAvailability cs = Inl (Error ''Component quantity must be a positive number'')"
proof (induction cs)
  case Nil
  then show ?case by simp
next
  case (Cons a cs)
  show ?case
  proof (cases "quantity a \<le> 0")
    case True
    then show ?thesis by (simp add: componentAvailability_def)
  next
    case False
    with Cons.prems have "\<exists>c\<in>set cs. quantity c \<le> 0" by auto
    with Cons.IH False show ?thesis by (simp add: componentAvailability_def)
  qed
qed

lemma mixed_all_positive:
  assumes "cs \<noteq> []" and "\<forall>c\<in>set cs. 0 < quantity c"
  shows "calculateMixedBundleAvailability cs
         = Inr (Min ((\<lambda>c. Math_floor (number_div (stock c) (quantity c))) ` set cs))"
proof -
  obtain c cs' where cs: "cs = c # cs'" using assms(1) by (cases cs) auto
  show ?thesis
    using assms(2) unfolding cs calculateMixedBundleAvailability_def
    by (simp add: map_throw_all_positive Math_min_Min del: map_throw.simps)
qed

lemma mixed_all_positive_safe:
  assumes "cs \<noteq> []" and "\<forall>c\<in>set cs. 0 < quantity c \<and> \<bar>stock c\<bar> < 2 ^ 53"
  shows "calculateMixedBundleAvailability cs = Inr (Min ((\<lambda>c. stock c div quantity c) ` set cs))"
proof -
  have "(\<lambda>c. Math_floor (number_div (stock c) (quantity c))) ` set cs
        = (\<lambda>c. stock c div quantity c) ` set cs"
    using assms(2) by (intro image_cong) (simp_all add: Math_floor_def floor_number_div)
  with mixed_all_positive [OF assms(1)] assms(2) show ?thesis by simp
qed

text \<open>
  Claim C2, as amended. Let the stock \<open>s\<close> be non-negative and the multiplier \<open>m\<close> positive.
  For \<open>s\<close> below \<open>2^53\<close>, \<open>calculateBundleAvailability\<close> returns the floor of the real
  quotient \<open>s / m\<close>. For every \<open>s\<close> the result does not decrease when the stock grows, it
  is \<open>s\<close> for the multiplier 1, and it is 0 when \<open>s < m\<close> (so also for \<open>s = 0\<close>); the
  last two for arguments that are numbers, which every integer below \<open>2^53\<close> is
  (lemma \<open>safe_is_number\<close>).
\<close>

theorem calculateBundleAvailability_floor:
  assumes "0 \<le> s" and "0 < m"
  shows "(s < 2 ^ 53 \<longrightarrow>
            calculateBundleAvailability s m = Inr \<lfloor>real_of_int s / real_of_int m\<rfloor>)
    \<and> (\<forall>s'. s \<le> s' \<longrightarrow>
          (\<exists>a b. calculateBundleAvailability s m = Inr a \<and>
                 calculateBundleAvailability s' m = Inr b \<and> a \<le> b))
    \<and> (is_number s \<longrightarrow> calculateBundleAvailability s 1 = Inr s)
    \<and> (s < m \<and> (s < 2 ^ 53 \<or> is_number s \<and> is_number m) \<longrightarrow>
          calculateBundleAvailability s m = Inr 0)"
proof (intro conjI impI allI)
  assume "s < 2 ^ 53"
  then have "calculateBundleAvailability s m = Inr (s div m)"
    using assms by (intro calculateBundleAvailability_safe) simp_all
  then show "calculateBundleAvailability s m = Inr \<lfloor>real_of_int s / real_of_int m\<rfloor>"
    by (simp add: floor_divide_of_int_eq)
next
  fix s' assume "s \<le> s'"
  with assms have "Math_floor (number_div s m) \<le> Math_floor (number_div s' m)"
    unfolding Math_floor_def by (intro number_div_mono)
  then show "\<exists>a b. calculateBundleAvailability s m = Inr a \<and>
                 calculateBundleAvailability s' m = Inr b \<and> a \<le> b"
    using assms(2) by (simp add: calculateBundleAvailability_def)
next
  assume "is_number s"
  then show "calculateBundleAvailability s 1 = Inr s"
    by (simp add: calculateBundleAvailability_def Math_floor_def number_div_one)
next
  assume h: "s < m \<and> (s < 2 ^ 53 \<or> is_number s \<and> is_number m)"
  then consider "s < 2 ^ 53" | "is_number s \<and> is_number m" by blast
  then have "\<lfloor>number_div s m\<rfloor> = 0"
  proof cases
    case 1
    then have "\<lfloor>number_div s m\<rfloor> = s div m" using assms by (intro floor_number_div) simp_all
    then show ?thesis using h assms(1) by (simp add: div_pos_pos_trivial)
  next
    case 2
    with h assms(1) show ?thesis by (intro floor_number_div_less) simp_all
  qed
  then show "calculateBundleAvailability s m = Inr 0"
    using assms(2) by (simp add: calculateBundleAvailability_def Math_floor_def)
qed

theorem calculateBundleAvailability_floor_witness:
  "calculateBundleAvailability 48 24 = Inr \<lfloor>real_of_int 48 / real_of_int 24\<rfloor>
   \<and> calculateBundleAvailability 48 24 = Inr 2
   \<and> calculateBundleAvailability 48 1 = Inr 48
   \<and> calculateBundleAvailability 5 6 = Inr 0
   \<and> calculateBundleAvailability 18014398509481984 1 = Inr 18014398509481984
   \<and> calculateBundleAvailability 18014398509481984 18014398509481988 = Inr 0"
proof -
  have "is_number 48" by (simp add: safe_is_number)
  moreover have "is_number 18014398509481984" and "is_number 18014398509481988"
    by code_simp+
  ultimately show ?thesis
    using calculateBundleAvailability_floor [of 48 24]
          calculateBundleAvailability_floor [of 5 6]
          calculateBundleAvailability_floor [of 18014398509481984 18014398509481988]
    by simp
qed

text \<open>
  Claim C2, as stated for every non-negative integer, fails beyond \<open>2^53\<close>, where the
  quotient of two doubles is rounded before \<open>Math.floor\<close> sees it: for the stock
  \<open>2^54 + 4\<close> (a double) and the multiplier 3 the function returns 6004799503160663, and the
  floor of the quotient is 6004799503160662.
\<close>

theorem calculateBundleAvailability_rounds_large_stock:
  "calculateBundleAvailability 18014398509481988 3 = Inr 6004799503160663
   \<and> \<lfloor>real_of_int 18014398509481988 / real_of_int 3\<rfloor> = 6004799503160662
   \<and> calculateBundleAvailability 18014398509481988 3
       \<noteq> Inr \<lfloor>real_of_int 18014398509481988 / real_of_int 3\<rfloor>"
proof -
  have 1: "calculateBundleAvailability 18014398509481988 3 = Inr 6004799503160663"
    by code_simp
  have 2: "\<lfloor>real_of_int 18014398509481988 / real_of_int 3\<rfloor> = 6004799503160662"
    by (simp add: floor_divide_of_int_eq)
  show ?thesis unfolding 1 2 by simp
qed

text \<open>
  Claim C3, as amended. Let every quantity be positive and every stock non-negative.
  \<open>calculateMixedBundleAvailability\<close> returns 0 for the empty list; for a list that is not
  empty and has every stock below \<open>2^53\<close> it returns the least of the floors
  \<open>stock / quantity\<close> of the components; and one component without stock makes the result 0
  whatever the others hold.
\<close>

theorem calculateMixedBundleAvailability_min:
  assumes "\<forall>c\<in>set cs. 0 < quantity c \<and> 0 \<le> stock c"
  shows "(cs = [] \<longrightarrow> calculateMixedBundleAvailability cs = Inr 0)
    \<and> (cs \<noteq> [] \<and> (\<forall>c\<in>set cs. stock c < 2 ^ 53) \<longrightarrow> calculateMixedBundleAvailability cs =
          Inr (Min ((\<lambda>c. \<lfloor>real_of_int (stock c) / real_of_int (quantity c)\<rfloor>) ` set cs)))
    \<and> ((\<exists>c\<in>set cs. stock c = 0) \<longrightarrow> calculateMixedBundleAvailability cs = Inr 0)"
proof (intro conjI impI)
  assume "cs = []"
  then show "calculateMixedBundleAvailability cs = Inr 0"
    by (simp add: calculateMixedBundleAvailability_def)
next
  assume h: "cs \<noteq> [] \<and> (\<forall>c\<in>set cs. stock c < 2 ^ 53)"
  then have ne: "cs \<noteq> []" by simp
  have safe: "\<forall>c\<in>set cs. 0 < quantity c \<and> \<bar>stock c\<bar> < 2 ^ 53" using assms h by auto
  have "(\<lambda>c. \<lfloor>real_of_int (stock c) / real_of_int (quantity c)\<rfloor>) ` set cs
        = (\<lambda>c. stock c div quantity c) ` set cs"
    by (rule image_cong) (simp_all add: floor_divide_of_int_eq)
  with mixed_all_positive_safe [OF ne safe]
  show "calculateMixedBundleAvailability cs =
        Inr (Min ((\<lambda>c. \<lfloor>real_of_int (stock c) / real_of_int (quantity c)\<rfloor>) ` set cs))"
    by simp
next
  assume "\<exists>c\<in>set cs. stock c = 0"
  then obtain c where c: "c \<in> set cs" "stock c = 0" by blast
  then have ne: "cs \<noteq> []" by auto
  have pos: "\<forall>c\<in>set cs. 0 < quantity c" using assms by simp
  let ?f = "\<lambda>c. Math_floor (number_div (stock c) (quantity c))"
  let ?A = "?f ` set cs"
  have fin: "finite ?A" by simp
  have "?f c = 0" using c by (simp add: Math_floor_def number_div_def round53_def)
  then have "0 \<in> ?A" using c(1) by force
  then have le: "Min ?A \<le> 0" using fin by (rule_tac Min_le)
  have "0 \<le> ?f d" if "d \<in> set cs" for d
    unfolding Math_floor_def using assms that by (intro number_div_nonneg) simp_all
  then have "\<forall>a\<in>?A. 0 \<le> a" by blast
  moreover have "Min ?A \<in> ?A" using fin ne by (intro Min_in) auto
  ultimately have "0 \<le> Min ?A" by blast
  with le have "Min ?A = 0" by simp
  with mixed_all_positive [OF ne pos] show "calculateMixedBundleAvailability cs = Inr 0"
    by simp
qed

theorem calculateMixedBundleAvailability_min_witness:
  "calculateMixedBundleAvailability
        [\<lparr>stock = 100, quantity = 6\<rparr>, \<lparr>stock = 40, quantity = 4\<rparr>, \<lparr>stock = 10, quantity = 2\<rparr>] = Inr 5
   \<and> calculateMixedBundleAvailability
        [\<lparr>stock = 10, quantity = 1\<rparr>, \<lparr>stock = 0, quantity = 1\<rparr>, \<lparr>stock = 10, quantity = 1\<rparr>] = Inr 0"
  using calculateMixedBundleAvailability_min
          [of "[\<lparr>stock = 100, quantity = 6\<rparr>, \<lparr>stock = 40, quantity = 4\<rparr>, \<lparr>stock = 10, quantity = 2\<rparr>]"]
        calculateMixedBundleAvailability_min
          [of "[\<lparr>stock = 10, quantity = 1\<rparr>, \<lparr>stock = 0, quantity = 1\<rparr>, \<lparr>stock = 10, quantity = 1\<rparr>]"]
  by simp

text \<open>
  Claim C3, as stated for every non-negative stock, fails beyond \<open>2^53\<close> for the same
  reason: the single component with the stock \<open>2^54 + 4\<close> and the quantity 3 gives
  6004799503160663, and the least floor of the quotients is 6004799503160662.
\<close>

theorem calculateMixedBundleAvailability_rounds_large_stock:
  "calculateMixedBundleAvailability [\<lparr>stock = 18014398509481988, quantity = 3\<rparr>]
     = Inr 6004799503160663
   \<and> Min {\<lfloor>real_of_int 18014398509481988 / real_of_int 3\<rfloor>} = 6004799503160662"
proof -
  have 1: "calculateMixedBundleAvailability [\<lparr>stock = 18014398509481988, quantity = 3\<rparr>]
     = Inr 6004799503160663"
    by code_simp
  have 2: "\<lfloor>real_of_int 18014398509481988 / real_of_int 3\<rfloor> = 6004799503160662"
    by (simp add: floor_divide_of_int_eq)
  show ?thesis using 1 2 by simp
qed

text \<open>
  Claim C6. \<open>calculateBundleAvailability\<close> throws for every stock when the multiplier is
  zero or negative, and \<open>calculateMixedBundleAvailability\<close> throws as soon as some
  component has a zero or negative quantity: the caller receives the error, never a number
  computed from a repaired argument.
\<close>

theorem calculator_rejects_nonpositive:
  "(m \<le> 0 \<longrightarrow>
      calculateBundleAvailability s m = Inl (Error ''Multiplier must be a positive number''))
   \<and> ((\<exists>c\<in>set cs. quantity c \<le> 0) \<longrightarrow>
      calculateMixedBundleAvailability cs =
        Inl (Error ''Component quantity must be a positive number''))"
proof (intro conjI impI)
  assume "m \<le> 0"
  then show "calculateBundleAvailability s m = Inl (Error ''Multiplier must be a positive number'')"
    by (simp add: calculateBundleAvailability_def)
next
  assume bad: "\<exists>c\<in>set cs. quantity c \<le> 0"
  then obtain c0 cs' where cs: "cs = c0 # cs'" by (cases cs) auto
  from map_throw_some_nonpositive [OF bad]
  show "calculateMixedBundleAvailability cs =
        Inl (Error ''Component quantity must be a positive number'')"
    unfolding calculateMixedBundleAvailability_def cs by simp
qed

theorem calculator_rejects_nonpositive_witness:
  "calculateBundleAvailability 48 0 = Inl (Error ''Multiplier must be a positive number'')
   \<and> calculateBundleAvailability 48 (- 1) = Inl (Error ''Multiplier must be a positive number'')
   \<and> calculateMixedBundleAvailability [\<lparr>stock = 10, quantity = 1\<rparr>, \<lparr>stock = 10, quantity = - 2\<rparr>]
       = Inl (Error ''Component quantity must be a positive number'')"
  using calculator_rejects_nonpositive [of 0 48 "[]"]
        calculator_rejects_nonpositive [of "- 1" 48 "[\<lparr>stock = 10, quantity = 1\<rparr>, \<lparr>stock = 10, quantity = - 2\<rparr>]"]
  by simp

text \<open>
  Claim C10. Neither calculator checks the sign of the stock: a negative stock with a
  positive multiplier gives a negative result and no error (for a stock above \<open>-2^53\<close> it is
  the floor of the negative quotient), and a component list with positive quantities and some
  negative stock gives a negative result.
\<close>

theorem calculator_negative_stock:
  "(s < 0 \<and> 0 < m \<longrightarrow>
      (\<exists>r. calculateBundleAvailability s m = Inr r \<and> r < 0
           \<and> (- (2 ^ 53) < s \<longrightarrow> r = \<lfloor>real_of_int s / real_of_int m\<rfloor>)))
   \<and> ((\<forall>c\<in>set cs. 0 < quantity c) \<and> (\<exists>c\<in>set cs. stock c < 0) \<longrightarrow>
      (\<exists>r. calculateMixedBundleAvailability cs = Inr r \<and> r < 0))"
proof (intro conjI impI)
  assume h: "s < 0 \<and> 0 < m"
  then have neg: "Math_floor (number_div s m) < 0"
    unfolding Math_floor_def by (intro floor_number_div_negative) simp_all
  have "Math_floor (number_div s m) = \<lfloor>real_of_int s / real_of_int m\<rfloor>" if "- (2 ^ 53) < s"
    using that h by (simp add: Math_floor_def floor_number_div floor_divide_of_int_eq)
  with neg h show "\<exists>r. calculateBundleAvailability s m = Inr r \<and> r < 0
           \<and> (- (2 ^ 53) < s \<longrightarrow> r = \<lfloor>real_of_int s / real_of_int m\<rfloor>)"
    by (simp add: calculateBundleAvailability_def)
next
  assume h: "(\<forall>c\<in>set cs. 0 < quantity c) \<and> (\<exists>c\<in>set cs. stock c < 0)"
  then obtain c where c: "c \<in> set cs" "stock c < 0" by blast
  then have ne: "cs \<noteq> []" by auto
  let ?f = "\<lambda>c. Math_floor (number_div (stock c) (quantity c))"
  let ?A = "?f ` set cs"
  have "0 < quantity c" using h c by blast
  then have "?f c < 0" using c unfolding Math_floor_def by (intro floor_number_div_negative)
  moreover have "Min ?A \<le> ?f c" using c by (intro Min_le) auto
  ultimately have "Min ?A < 0" by linarith
  with mixed_all_positive [OF ne] h
  show "\<exists>r. calculateMixedBundleAvailability cs = Inr r \<and> r < 0" by simp
qed

theorem calculator_negative_stock_witness:
  "calculateBundleAvailability (- 1) 24 = Inr (- 1)
   \<and> calculateMixedBundleAvailability [\<lparr>stock = 10, quantity = 2\<rparr>, \<lparr>stock = - 3, quantity = 2\<rparr>] = Inr (- 2)"
proof -
  have run: "calculateBundleAvailability (- 1) 24 = Inr (- 1)
   \<and> calculateMixedBundleAvailability [\<lparr>stock = 10, quantity = 2\<rparr>, \<lparr>stock = - 3, quantity = 2\<rparr>] = Inr (- 2)"
    by code_simp
  from calculator_negative_stock
         [of "- 1" 24 "[\<lparr>stock = 10, quantity = 2\<rparr>, \<lparr>stock = - 3, quantity = 2\<rparr>]"] run
  show ?thesis by blast
qed

section \<open>Properties of the pick list\<close>

























lemma replace_quotes_concat:
  "replace_quotes v = concat (map (\<lambda>c. if c = CHR 0x22 then [c, c] else [c]) v)"
  by (induction v) simp_all

lemma escapeCSV_spec: "escapeCSV v = csv_field_spec v"
  by (auto simp: escapeCSV_def csv_field_spec_def string_includes_def replace_quotes_concat)

lemma escapeCSV_empty: "escapeCSV [] = []"
  by (simp add: escapeCSV_def string_includes_def)

lemma join_lines: "join [c] (h # ls) = h @ concat (map (\<lambda>l. c # l) ls)"
  by (induction ls arbitrary: h) simp_all

lemma join_csv_row: "join '','' (csv_row item) = csv_line_spec item"
  by (simp add: csv_row_def csv_line_spec_def escapeCSV_spec [symmetric] or_empty_def
        escapeCSV_empty split: option.splits)

text \<open>
  Claim C8. \<open>exportToCSV\<close> writes the header row \<open>Product,Variant,SKU,Quantity,Bin Location\<close>
  and then, each after a line feed, one row for every item in the order of the input. A row is
  the five fields separated by commas, where a text field that holds a comma, a double quote
  or a line feed stands between double quotes with its double quotes doubled, and an absent
  SKU or bin location is the empty field. The single item \<open>{"Lager, Premium", "Single", null,
  10, null}\<close> gives the header and the row \<open>"Lager, Premium",Single,,10,\<close>.
\<close>

theorem exportToCSV_serialises:
  "exportToCSV items =
     ''Product,Variant,SKU,Quantity,Bin Location'' @
     concat (map (\<lambda>item. CHR 0x0A # csv_line_spec item) items)
   \<and> exportToCSV
        [\<lparr>variantGid = g, productTitle = ''Lager, Premium'', variantTitle = ''Single'',
          sku = None, item_quantity = 10, binLocation = None\<rparr>]
     = ''Product,Variant,SKU,Quantity,Bin Location'' @ [CHR 0x0A] @
       [CHR 0x22] @ ''Lager, Premium'' @ [CHR 0x22] @ '',Single,,10,''"
proof -
  have gen: "exportToCSV xs =
     ''Product,Variant,SKU,Quantity,Bin Location'' @
     concat (map (\<lambda>item. CHR 0x0A # csv_line_spec item) xs)" for xs
    unfolding exportToCSV_def join_lines
    by (simp add: csv_headers_def join_csv_row comp_def)
  have ten: "String_number 10 = ''10''"
    by code_simp
  show ?thesis
    unfolding gen by (simp add: csv_line_spec_def csv_field_spec_def ten)
qed

section \<open>Printing safe integers\<close>

text \<open>
  A safe integer is printed with its decimal digits: no other integer is the same number,
  so the search for a shorter decimal number returns the integer itself.
\<close>

lemma round53_two_53: "round53 9007199254740992 = 9007199254740992"
  by code_simp

lemma same_number_safe:
  assumes "0 \<le> x" and "x < 2 ^ 53" and "0 \<le> v"
  shows "same_number v x \<longleftrightarrow> v = x"
proof (cases "v < 2 ^ 53")
  case True
  then have "round53 (of_int v) = of_int v" using assms(3) by (intro round53_of_int) simp
  moreover have "round53 (of_int x) = of_int x" using assms(1,2) by (intro round53_of_int) simp
  ultimately show ?thesis by (simp add: same_number_def)
next
  case False
  then have "(2 ^ 53 :: rat) \<le> of_int v"
    by (metis not_less of_int_le_iff of_int_numeral of_int_power)
  then have "round53 (2 ^ 53) \<le> round53 (of_int v)" by (intro round53_mono) simp_all
  then have "(2 ^ 53 :: rat) \<le> round53 (of_int v)" using round53_two_53 by simp
  moreover have "round53 (of_int x) = of_int x" using assms(1,2) by (intro round53_of_int) simp
  moreover have "(of_int x :: rat) < 2 ^ 53"
    using assms(2) by (metis of_int_less_iff of_int_numeral of_int_power)
  ultimately have "round53 (of_int v) \<noteq> round53 (of_int x)" by linarith
  with False assms(2) show ?thesis by (simp add: same_number_def)
qed

lemma shortest_safe:
  assumes "0 \<le> x" and "x < 2 ^ 53"
  shows "shortest x j = x"
proof (induction j)
  case 0
  show ?case by simp
next
  case (Suc j)
  let ?p = "10 ^ Suc j :: int"
  let ?lo = "(x div ?p) * ?p"
  have p: "0 < ?p" by simp
  have lo: "0 \<le> ?lo" using assms(1) p by (simp add: pos_imp_zdiv_nonneg_iff)
  have "x mod ?p < ?p" using p by (rule pos_mod_bound)
  then have hi: "x < ?lo + ?p" using div_mult_mod_eq [of x ?p] by linarith
  have 1: "same_number ?lo x \<longleftrightarrow> ?lo = x" using assms lo by (rule same_number_safe)
  have 2: "\<not> same_number (?lo + ?p) x"
    using same_number_safe [OF assms, of "?lo + ?p"] lo p hi by simp
  show ?case
    unfolding shortest.simps Let_def using 1 2 Suc.IH by (simp only: if_False simp_thms) simp
qed

lemma length_decimal_digits:
  "0 < k \<Longrightarrow> n < 10 ^ k \<Longrightarrow> length (decimal_digits n) \<le> k"
proof (induction n arbitrary: k rule: decimal_digits.induct)
  case (1 n)
  show ?case
  proof (cases "n < 10")
    case True
    then show ?thesis using "1.prems" by (subst decimal_digits.simps) simp
  next
    case False
    then obtain k' where k: "k = Suc k'" using "1.prems" by (cases k) auto
    have "k' \<noteq> 0" using False "1.prems" k by (cases k') auto
    moreover have "n div 10 < 10 ^ k'" using "1.prems" k by simp
    ultimately have "length (decimal_digits (n div 10)) \<le> k'"
      using "1.IH" [OF False, of k'] by simp
    then show ?thesis using False k by (subst decimal_digits.simps) simp
  qed
qed

lemma String_number_safe:
  assumes "\<bar>n\<bar> < 2 ^ 53"
  shows "String_number n =
    (if n < 0 then CHR ''-'' # decimal_digits (- n) else decimal_digits n)"
proof -
  have mag: "String_magnitude x = decimal_digits x" if "0 \<le> x" "x < 2 ^ 53" for x
  proof -
    have "x < 10 ^ 21" using that(2) by simp
    then have "length (decimal_digits x) \<le> 21" by (intro length_decimal_digits) simp_all
    then show ?thesis by (simp add: String_magnitude_def shortest_safe [OF that])
  qed
  show ?thesis using assms by (auto simp: String_number_def mag)
qed

section \<open>Properties of the sync locks\<close>

lemma acquireSyncLock_eq:
  "acquireSyncLock now lockId b locks =
     (if \<exists>l\<in>set locks. lock_id l = lockId \<and> \<not> expiresAt l < now
      then (False, filter (\<lambda>l. \<not> expiresAt l < now) locks)
      else (True, filter (\<lambda>l. \<not> expiresAt l < now) locks
                   @ [\<lparr>lock_id = lockId, bundleId = b, expiresAt = now + 60000\<rparr>]))"
  by (auto simp: acquireSyncLock_def syncLock_create_def syncLock_deleteMany_expired_def
        SYNC_LOCK_TTL_MS_def Let_def)

lemma releaseSyncLock_eq:
  "releaseSyncLock lockId locks = filter (\<lambda>l. lock_id l \<noteq> lockId) locks"
proof (cases "\<exists>l\<in>set locks. lock_id l = lockId")
  case True
  then show ?thesis by (simp add: releaseSyncLock_def syncLock_delete_def)
next
  case False
  then have "filter (\<lambda>l. lock_id l \<noteq> lockId) locks = locks" by (auto intro: filter_True)
  with False show ?thesis by (simp add: releaseSyncLock_def syncLock_delete_def)
qed

text \<open>
  Claim C4. \<open>acquireSyncLock\<close> first deletes every expired lock (a lock is expired when its
  \<open>expiresAt\<close> lies before the reading of the clock, and live otherwise), whatever it then
  returns; it returns \<open>true\<close>, having stored the new lock with the expiry \<open>now + TTL\<close>,
  exactly when the table holds no live lock with the id at the call, and \<open>false\<close> otherwise.
  After a successful acquisition that was never released, an acquisition of the same id at
  any time later than the expiry succeeds.
\<close>

theorem acquireSyncLock_contract:
  "snd (acquireSyncLock now lockId b locks) =
     filter (\<lambda>l. \<not> expiresAt l < now) locks @
     (if fst (acquireSyncLock now lockId b locks)
      then [\<lparr>lock_id = lockId, bundleId = b, expiresAt = now + SYNC_LOCK_TTL_MS\<rparr>] else [])
   \<and> (fst (acquireSyncLock now lockId b locks)
        \<longleftrightarrow> \<not> (\<exists>l\<in>set locks. lock_id l = lockId \<and> \<not> expiresAt l < now))
   \<and> (fst (acquireSyncLock now lockId b locks) \<and> now + SYNC_LOCK_TTL_MS < later
        \<longrightarrow> fst (acquireSyncLock later lockId b' (snd (acquireSyncLock now lockId b locks))))"
  by (auto simp: acquireSyncLock_eq SYNC_LOCK_TTL_MS_def)

theorem acquireSyncLock_contract_witness:
  "fst (acquireSyncLock 1000 ''sync-b1-7-1000'' ''b1''
          [\<lparr>lock_id = ''old'', bundleId = ''b0'', expiresAt = 999\<rparr>])
   \<and> snd (acquireSyncLock 1000 ''sync-b1-7-1000'' ''b1''
          [\<lparr>lock_id = ''old'', bundleId = ''b0'', expiresAt = 999\<rparr>])
       = [\<lparr>lock_id = ''sync-b1-7-1000'', bundleId = ''b1'', expiresAt = 61000\<rparr>]
   \<and> \<not> fst (acquireSyncLock 61000 ''sync-b1-7-1000'' ''b1''
          [\<lparr>lock_id = ''sync-b1-7-1000'', bundleId = ''b1'', expiresAt = 61000\<rparr>])
   \<and> fst (acquireSyncLock 61001 ''sync-b1-7-1000'' ''b1''
          (snd (acquireSyncLock 1000 ''sync-b1-7-1000'' ''b1''
             [\<lparr>lock_id = ''old'', bundleId = ''b0'', expiresAt = 999\<rparr>])))"
  using acquireSyncLock_contract [of 1000 "''sync-b1-7-1000''" "''b1''"
          "[\<lparr>lock_id = ''old'', bundleId = ''b0'', expiresAt = 999\<rparr>]" 61001 "''b1''"]
        acquireSyncLock_contract [of 61000 "''sync-b1-7-1000''" "''b1''"
          "[\<lparr>lock_id = ''sync-b1-7-1000'', bundleId = ''b1'', expiresAt = 61000\<rparr>]" 0 "''b1''"]
  by (simp add: acquireSyncLock_eq SYNC_LOCK_TTL_MS_def)

section \<open>Properties of the sync orchestrator\<close>

lemma sync_bundle_locks:
  "syncLocks (snd (sync_bundle e b loc v a w)) = syncLocks w"
  by (simp add: sync_bundle_def split: sum.splits prod.splits option.splits)

lemma sync_bundle_not_Skipped: "fst (sync_bundle e b loc v a w) \<noteq> Skipped"
  by (simp add: sync_bundle_def split: sum.splits prod.splits option.splits)

lemma process_bundle_eq:
  "process_bundle e event v loc b w =
     (let lockId = sync_lock_id b (locationId event) (clock e (ticks w));
          now = clock e (Suc (ticks w));
          w3 = w\<lparr>ticks := Suc (Suc (ticks w)),
                 syncLocks := snd (acquireSyncLock now lockId (bundle_id b) (syncLocks w))\<rparr>
      in if \<not> fst (acquireSyncLock now lockId (bundle_id b) (syncLocks w)) then (Skipped, w3)
         else (fst (sync_bundle e b loc v (available event) w3),
               (snd (sync_bundle e b loc v (available event) w3))
                 \<lparr>syncLocks := filter (\<lambda>l. lock_id l \<noteq> lockId) (syncLocks w3)\<rparr>))"
  by (simp add: process_bundle_def Date_now_def Let_def case_prod_beta releaseSyncLock_eq
        sync_bundle_locks)

lemma process_bundle_locks:
  "set (syncLocks (snd (process_bundle e event v loc b w))) \<subseteq> set (syncLocks w)"
  by (auto simp: process_bundle_eq Let_def acquireSyncLock_eq)

lemma process_bundles_locks:
  "set (syncLocks (snd (process_bundles e event v loc bs tot w))) \<subseteq> set (syncLocks w)"
proof (induction bs arbitrary: tot w)
  case Nil
  then show ?case by simp
next
  case (Cons b bs)
  obtain out w' where pb: "process_bundle e event v loc b w = (out, w')"
    by (cases "process_bundle e event v loc b w")
  have sub: "set (syncLocks w') \<subseteq> set (syncLocks w)"
    using process_bundle_locks [of e event v loc b w] pb by simp
  show ?case
  proof (cases out)
    case Skipped
    with pb sub Cons.IH [of tot w'] show ?thesis by auto
  next
    case (Threw err)
    with pb sub show ?thesis by simp
  next
    case (Adjusted n)
    with pb sub Cons.IH [of "tot + n" w'] show ?thesis by auto
  qed
qed

lemma processInventoryUpdate_world:
  "snd (processInventoryUpdate e event w) = w
   \<or> (\<exists>v loc bs. snd (processInventoryUpdate e event w) = snd (process_bundles e event v loc bs 0 w))"
proof -
  define loc where "loc = ''gid://shopify/Location/'' @ String_number (locationId event)"
  have "snd (case p of (Inl err, w') \<Rightarrow> (Inl err, w')
                     | (Inr t, w') \<Rightarrow> (Inr (f t), w')) = snd p"
    for p :: "(error + nat) \<times> world" and f :: "nat \<Rightarrow> SyncResult"
    by (cases p; cases "fst p") auto
  then show ?thesis
    unfolding processInventoryUpdate_def Let_def loc_def [symmetric]
    by (simp split: option.splits) blast
qed

text \<open>
  Claim C5. A round of the loop of \<open>processInventoryUpdate\<close> ends with \<open>continue\<close> exactly
  when its lock was not acquired. In every other case, whether the \<open>try\<close> block ran to its
  end or an exception left it (thrown by a calculator or by the inventory adjustment call), the
  lock table afterwards holds no lock with the id the round acquired. So a whole run, returning
  or throwing, leaves no lock behind that was not in the table before.
\<close>

theorem lock_released_on_every_exit:
  "(fst (process_bundle e event v loc b w) = Skipped \<longleftrightarrow>
      \<not> fst (acquireSyncLock (clock e (Suc (ticks w)))
               (sync_lock_id b (locationId event) (clock e (ticks w))) (bundle_id b) (syncLocks w)))
   \<and> (fst (process_bundle e event v loc b w) \<noteq> Skipped \<longrightarrow>
        (\<forall>l\<in>set (syncLocks (snd (process_bundle e event v loc b w))).
           lock_id l \<noteq> sync_lock_id b (locationId event) (clock e (ticks w))))
   \<and> set (syncLocks (snd (processInventoryUpdate e event w))) \<subseteq> set (syncLocks w)"
proof (intro conjI)
  show "fst (process_bundle e event v loc b w) = Skipped \<longleftrightarrow>
      \<not> fst (acquireSyncLock (clock e (Suc (ticks w)))
               (sync_lock_id b (locationId event) (clock e (ticks w))) (bundle_id b) (syncLocks w))"
    by (simp add: process_bundle_eq Let_def sync_bundle_not_Skipped)
  show "fst (process_bundle e event v loc b w) \<noteq> Skipped \<longrightarrow>
        (\<forall>l\<in>set (syncLocks (snd (process_bundle e event v loc b w))).
           lock_id l \<noteq> sync_lock_id b (locationId event) (clock e (ticks w)))"
    by (simp add: process_bundle_eq Let_def)
  show "set (syncLocks (snd (processInventoryUpdate e event w))) \<subseteq> set (syncLocks w)"
  proof -
    from processInventoryUpdate_world [of e event w] consider
      "snd (processInventoryUpdate e event w) = w"
      | v' loc' bs where
        "snd (processInventoryUpdate e event w) = snd (process_bundles e event v' loc' bs 0 w)"
      by blast
    then show ?thesis
    proof cases
      case 1
      then show ?thesis by simp
    next
      case 2
      then show ?thesis using process_bundles_locks [of e event v' loc' bs 0 w] by simp
    qed
  qed
qed

theorem lock_released_on_every_exit_witness:
  "fst (process_bundle failing_shop single_event ''variant/single'' ''gid://shopify/Location/7''
          pack_bundle pack_world) = Threw (Error ''fetch failed'')
   \<and> syncLocks (snd (process_bundle failing_shop single_event ''variant/single''
          ''gid://shopify/Location/7'' pack_bundle pack_world)) = []
   \<and> fst (processInventoryUpdate failing_shop single_event pack_world) = Inl (Error ''fetch failed'')
   \<and> syncLocks (snd (processInventoryUpdate failing_shop single_event pack_world)) = []"
proof -
  have run: "fst (process_bundle failing_shop single_event ''variant/single''
          ''gid://shopify/Location/7'' pack_bundle pack_world) = Threw (Error ''fetch failed'')
   \<and> syncLocks (snd (process_bundle failing_shop single_event ''variant/single''
          ''gid://shopify/Location/7'' pack_bundle pack_world)) = []
   \<and> fst (processInventoryUpdate failing_shop single_event pack_world) = Inl (Error ''fetch failed'')
   \<and> syncLocks (snd (processInventoryUpdate failing_shop single_event pack_world)) = []"
    by code_simp
  from lock_released_on_every_exit
         [of failing_shop single_event "''variant/single''" "''gid://shopify/Location/7''"
             pack_bundle pack_world] run
  show ?thesis by blast
qed

text \<open>
  Claim C9. When \<open>processInventoryUpdate\<close> returns a result for an event whose variant was
  found, \<open>bundlesAffected\<close> is the number of all bundles found for the variant, whatever
  happened to each of them in the loop (a bundle skipped for its lock is counted like any
  other), and \<open>skipped\<close> is set only when no bundle was found; when the variant was not
  found, \<open>bundlesAffected\<close> is 0 and \<open>skipped\<close> says so. A skipped lock never sets
  \<open>skipped\<close>.
\<close>

theorem processInventoryUpdate_counts_found_bundles:
  assumes "fst (processInventoryUpdate e event w) = Inr r"
  shows "(case resolved_variant e event of
            None \<Rightarrow> bundlesAffected r = 0
                    \<and> skipped r = Some ''Could not find variant for inventory item''
          | Some v \<Rightarrow>
              bundlesAffected r = length (findBundlesForVariant e (shop event) v)
              \<and> skipped r = (if findBundlesForVariant e (shop event) v = []
                             then Some ''Variant is not part of any bundle'' else None))"
  using assms
  by (auto simp: processInventoryUpdate_def resolved_variant_def Let_def
        split: option.splits prod.splits sum.splits if_splits)

theorem processInventoryUpdate_counts_found_bundles_witness:
  "fst (process_bundle pack_shop single_event ''variant/single'' ''gid://shopify/Location/7''
          pack_bundle contended_world) = Skipped
   \<and> findBundlesForVariant pack_shop ''shop'' ''variant/single'' = [pack_bundle]
   \<and> fst (processInventoryUpdate pack_shop single_event contended_world)
       = Inr \<lparr>processed = True, bundlesAffected = 1, adjustmentsMade = 0, skipped = None,
              error = None\<rparr>"
proof -
  have run: "fst (processInventoryUpdate pack_shop single_event contended_world)
       = Inr \<lparr>processed = True, bundlesAffected = 1, adjustmentsMade = 0, skipped = None,
              error = None\<rparr>"
    by code_simp
  have found: "fst (process_bundle pack_shop single_event ''variant/single''
          ''gid://shopify/Location/7'' pack_bundle contended_world) = Skipped
   \<and> findBundlesForVariant pack_shop ''shop'' ''variant/single'' = [pack_bundle]"
    by code_simp
  from processInventoryUpdate_counts_found_bundles [OF run] run found
  show ?thesis by blast
qed

section \<open>The same event applied twice\<close>

text \<open>
  An event on a component of a bundle, applied twice. 48 singles allow two 24-packs while
  five are listed: the first application adjusts the 24-pack by \<open>-3\<close>, the second reads
  the parent's stock from the ledger, computes the delta 0 and adjusts nothing.
\<close>

lemma component_event_applied_twice:
  "fst (processInventoryUpdate pack_shop single_event pack_world)
     = Inr \<lparr>processed = True, bundlesAffected = 1, adjustmentsMade = 1, skipped = None,
            error = None\<rparr>
   \<and> inventory (snd (processInventoryUpdate pack_shop single_event pack_world))
        (''gid://shopify/InventoryItem/124'', ''gid://shopify/Location/7'') = Some 2
   \<and> fst (processInventoryUpdate pack_shop single_event
            (snd (processInventoryUpdate pack_shop single_event pack_world)))
     = Inr \<lparr>processed = True, bundlesAffected = 1, adjustmentsMade = 0, skipped = None,
            error = None\<rparr>
   \<and> inventory (snd (processInventoryUpdate pack_shop single_event
            (snd (processInventoryUpdate pack_shop single_event pack_world))))
        (''gid://shopify/InventoryItem/124'', ''gid://shopify/Location/7'') = Some 2"
  by code_simp

text \<open>
  Claim C1 (sync idempotence: the same event applied a second time, with no change of
  state from outside in between, yields \<open>adjustmentsMade = 0\<close>) does not hold of
  \<open>processInventoryUpdate\<close> for an event on the parent of a bundle. The 24-pack is listed
  with 5 while 48 singles allow 2; the webhook for the 24-pack (inventory item 124, location
  7, available 5) makes the service adjust it by \<open>-3\<close> to 2. When the same event is applied
  again, \<open>calculateBundleAdjustments\<close> takes the stock of the changed variant, here the
  parent, from the event (5) and not from the ledger (2): the delta is \<open>-3\<close> once more,
  \<open>adjustmentsMade\<close> is 1 again, and the ledger ends at \<open>-1\<close>. The sync lock does not
  stand in the way: its id ends with the clock reading of the round, and the round releases
  it when it ends.
\<close>

theorem parent_event_applied_twice:
  "fst (processInventoryUpdate pack_shop pack_event pack_world)
     = Inr \<lparr>processed = True, bundlesAffected = 1, adjustmentsMade = 1, skipped = None,
            error = None\<rparr>
   \<and> inventory (snd (processInventoryUpdate pack_shop pack_event pack_world))
        (''gid://shopify/InventoryItem/124'', ''gid://shopify/Location/7'') = Some 2
   \<and> syncLocks (snd (processInventoryUpdate pack_shop pack_event pack_world)) = []
   \<and> fst (processInventoryUpdate pack_shop pack_event
            (snd (processInventoryUpdate pack_shop pack_event pack_world)))
     = Inr \<lparr>processed = True, bundlesAffected = 1, adjustmentsMade = 1, skipped = None,
            error = None\<rparr>
   \<and> inventory (snd (processInventoryUpdate pack_shop pack_event
            (snd (processInventoryUpdate pack_shop pack_event pack_world))))
        (''gid://shopify/InventoryItem/124'', ''gid://shopify/Location/7'') = Some (- 1)"
  by code_simp

end
